theory Spec2Isabelle
  imports Complex_Main "HOL-Library.Multiset"
begin

section \<open>Python values and failures\<close>

text \<open>
  Every way the Python source can stop is a value of \<open>error\<close>: \<open>sys.exit\<close> with the
  message printed before it, and the exceptions raised by indexing, by a local variable
  read before its first assignment, by \<open>int()\<close> and \<open>list.index\<close>, by \<open>raw_input\<close> at
  the end of the input, and by subscripting or formatting a value of the wrong type.
\<close>

datatype error =
    SysExit string
  | IndexError
  | UnboundLocalError
  | ValueError
  | EOFError
  | TypeError

text \<open>Python list indexing: a negative index counts from the end; out of range raises.\<close>

definition py_index :: "nat \<Rightarrow> int \<Rightarrow> error + nat" where
  "py_index n i =
     (let j = (if i < 0 then int n + i else i)
      in if 0 \<le> j \<and> j < int n then Inr (nat j) else Inl IndexError)"

text \<open>
  Sequencing of fallible steps, a \<open>for\<close> loop over a list that stops at the first
  failure, and a list built element by element by a fallible constructor.
\<close>

definition bindE :: "error + 'a \<Rightarrow> ('a \<Rightarrow> error + 'b) \<Rightarrow> error + 'b" where
  "bindE m f = (case m of Inl e \<Rightarrow> Inl e | Inr x \<Rightarrow> f x)"

fun mapE :: "('a \<Rightarrow> error + 'b) \<Rightarrow> 'a list \<Rightarrow> error + 'b list" where
  "mapE f [] = Inr []"
| "mapE f (x # xs) =
     (case f x of
        Inl e \<Rightarrow> Inl e
      | Inr y \<Rightarrow> (case mapE f xs of Inl e \<Rightarrow> Inl e | Inr ys \<Rightarrow> Inr (y # ys)))"

fun forE :: "'a list \<Rightarrow> ('a \<Rightarrow> 's \<Rightarrow> error + 's) \<Rightarrow> 's \<Rightarrow> error + 's" where
  "forE [] body s = Inr s"
| "forE (x # xs) body s = (case body x s of Inl e \<Rightarrow> Inl e | Inr s' \<Rightarrow> forE xs body s')"


section \<open>Text of the connectivity table\<close>

text \<open>
  \<open>'%3d' % n\<close> is the decimal numeral of \<open>n\<close>, right-justified in three columns;
  \<open>string.split\<close> cuts a line at runs of white space; \<open>int(s)\<close> reads an optional sign
  and decimal digits and raises \<open>ValueError\<close> on anything else.
\<close>

definition digit_char :: "nat \<Rightarrow> char" where
  "digit_char d = char_of (48 + d)"

fun dec_nat :: "nat \<Rightarrow> string" where
  "dec_nat n = (if n < 10 then [digit_char n] else dec_nat (n div 10) @ [digit_char (n mod 10)])"

declare dec_nat.simps [simp del]

definition dec_int :: "int \<Rightarrow> string" where
  "dec_int i = (if i < 0 then CHR ''-'' # dec_nat (nat (- i)) else dec_nat (nat i))"

definition fmt3d :: "int \<Rightarrow> string" where
  "fmt3d i = replicate (3 - length (dec_int i)) CHR '' '' @ dec_int i"

definition is_space :: "char \<Rightarrow> bool" where
  "is_space c = ((of_char c :: nat) \<in> set [9, 10, 11, 12, 13, 32])"

fun split_from :: "string \<Rightarrow> string \<Rightarrow> string list" where
  "split_from cur [] = (if cur = [] then [] else [cur])"
| "split_from cur (c # cs) =
     (if is_space c then (if cur = [] then split_from [] cs else cur # split_from [] cs)
      else split_from (cur @ [c]) cs)"

definition split :: "string \<Rightarrow> string list" where
  "split s = split_from [] s"

definition is_digit :: "char \<Rightarrow> bool" where
  "is_digit c = (48 \<le> (of_char c :: nat) \<and> (of_char c :: nat) \<le> 57)"

definition digits_value :: "string \<Rightarrow> nat" where
  "digits_value ds = foldl (\<lambda>a c. 10 * a + (of_char c - 48)) 0 ds"

definition parse_digits :: "string \<Rightarrow> error + nat" where
  "parse_digits ds = (if ds \<noteq> [] \<and> list_all is_digit ds then Inr (digits_value ds) else Inl ValueError)"

definition py_int :: "string \<Rightarrow> error + int" where
  "py_int tok =
     (case tok of
        [] \<Rightarrow> Inl ValueError
      | c # cs \<Rightarrow>
          if c = CHR ''-'' then (case parse_digits cs of Inl e \<Rightarrow> Inl e | Inr n \<Rightarrow> Inr (- int n))
          else if c = CHR ''+'' then (case parse_digits cs of Inl e \<Rightarrow> Inl e | Inr n \<Rightarrow> Inr (int n))
          else (case parse_digits tok of Inl e \<Rightarrow> Inl e | Inr n \<Rightarrow> Inr (int n)))"

section \<open>Edge records (class \<open>edge\<close>)\<close>

record edge =
  type :: int
  f1 :: int
  e1 :: int
  f2 :: int
  e2 :: int
  cont :: int
  dir :: int
  dg :: int
  dof :: int
  Nctl :: int

text \<open>
  The row format shared by \<open>edge.write_info\<close> and the strings that
  \<open>calcEdgeConnectivity\<close> builds: eleven \<open>%3d\<close> fields separated by blanks and bars,
  closed by a newline.
\<close>

definition fmt_row ::
  "int \<Rightarrow> int \<Rightarrow> int \<Rightarrow> int \<Rightarrow> int \<Rightarrow> int \<Rightarrow> int \<Rightarrow> int \<Rightarrow> int \<Rightarrow> int \<Rightarrow> int \<Rightarrow> string" where
  "fmt_row a0 a1 a2 a3 a4 a5 a6 a7 a8 a9 a10 =
     fmt3d a0 @ ''        |'' @ fmt3d a1 @ ''     '' @ fmt3d a2 @ ''    |'' @ fmt3d a3
     @ ''   | '' @ fmt3d a4 @ ''  |  '' @ fmt3d a5 @ ''       | '' @ fmt3d a6 @ ''  | ''
     @ fmt3d a7 @ ''           | '' @ fmt3d a8 @ ''  | '' @ fmt3d a9 @ ''     '' @ fmt3d a10
     @ ''      |'' @ [CHR 0x0A]"

definition write_info :: "nat \<Rightarrow> edge \<Rightarrow> string" where
  "write_info i e =
     fmt_row (int i) (f1 e) (e1 e) (type e) (dof e) (cont e) (dir e) (dg e) (Nctl e) (f2 e) (e2 e)"

definition replace_bars :: "string \<Rightarrow> string" where
  "replace_bars line = map (\<lambda>c. if c = CHR ''|'' then CHR '' '' else c) line"

text \<open>
  \<open>edge.__init__\<close>: the line is split and the fields are read by position. A record of
  type 0 takes \<open>dof\<close> from the line and fixes \<open>cont = -1\<close>, \<open>dir = 1\<close>, \<open>f2 = e2 = -1\<close>; any
  other type fixes \<open>dof = 7\<close> and reads continuity, direction and the second face and edge.
\<close>

definition int_at :: "string list \<Rightarrow> nat \<Rightarrow> error + int" where
  "int_at aux k = (if k < length aux then py_int (aux ! k) else Inl IndexError)"

definition edge_init :: "string \<Rightarrow> error + edge" where
  "edge_init init_string =
     (let aux = split init_string in
      bindE (int_at aux 3) (\<lambda>ty.
      bindE (int_at aux 1) (\<lambda>a1.
      bindE (int_at aux 2) (\<lambda>b1.
      bindE (int_at aux 7) (\<lambda>g.
      bindE (int_at aux 8) (\<lambda>n.
        if ty = 0 then
          bindE (int_at aux 4) (\<lambda>d.
            Inr \<lparr>type = ty, f1 = a1, e1 = b1, f2 = -1, e2 = -1, cont = -1, dir = 1,
                 dg = g, dof = d, Nctl = n\<rparr>)
        else
          bindE (int_at aux 5) (\<lambda>c.
          bindE (int_at aux 6) (\<lambda>dr.
          bindE (int_at aux 9) (\<lambda>a2.
          bindE (int_at aux 10) (\<lambda>b2.
            Inr \<lparr>type = ty, f1 = a1, e1 = b1, f2 = a2, e2 = b2, cont = c, dir = dr,
                 dg = g, dof = 7, Nctl = n\<rparr>))))))))))"

section \<open>Surfaces and the geometry object\<close>

text \<open>
  Of a pySpline surface the connectivity code reads the two control-point counts and reads
  and writes the integer array \<open>globalCtlIndex\<close> of shape \<open>Nctlu \<times> Nctlv\<close>, held here as a
  list of rows. Of the \<open>pyGeo\<close> object it reads and writes the surfaces, the edge list
  \<open>con\<close> (\<open>None\<close> until connectivity is set), the alias lists \<open>global_coef\<close>, the
  count \<open>Ncoef\<close> and the free shapes \<open>coef_shapes\<close>; \<open>coef_sizes\<close> is the product of
  each free shape and \<open>slices\<close>, \<open>coef\<close> are copies, so they are not repeated.
  \<open>stdout\<close> collects the diagnostics printed by the global indexing; the progress
  messages and the printed table are not recorded.
\<close>

record surf =
  Nctlu :: nat
  Nctlv :: nat
  globalCtlIndex :: "int list list"

record pyGeo =
  surfs :: "surf list"
  con :: "edge list option"
  global_coef :: "(nat \<times> nat \<times> nat) list list"
  Ncoef :: nat
  coef_shapes :: "(int \<times> int) list"
  stdout :: "string list"

text \<open>The local variables of \<open>_setEdgeConnectivity\<close> together with the fields it updates.\<close>

record indexing =
  ix_surfs :: "surf list"
  ix_global_coef :: "(nat \<times> nat \<times> nat) list list"
  counter :: nat
  patchID :: "int option"
  master_bool_array :: "(nat \<times> nat) list"
  ix_coef_shapes :: "(int \<times> int) list"
  ix_stdout :: "string list"

text \<open>
  Reading \<open>a[i,j]\<close> with Python's treatment of negative indices, and the assignment
  \<open>self.surfs[isurf].globalCtlIndex[i,j] = v\<close>, which raises outside the array.
\<close>

definition get2 :: "int list list \<Rightarrow> int \<Rightarrow> int \<Rightarrow> error + int" where
  "get2 arr i j =
     (case py_index (length arr) i of
        Inl e \<Rightarrow> Inl e
      | Inr r \<Rightarrow> (case py_index (length (arr ! r)) j of
                   Inl e \<Rightarrow> Inl e
                 | Inr c \<Rightarrow> Inr (arr ! r ! c)))"

definition set_globalCtlIndex :: "nat \<Rightarrow> nat \<Rightarrow> nat \<Rightarrow> int \<Rightarrow> surf list \<Rightarrow> error + surf list" where
  "set_globalCtlIndex isurf i j v ss =
     (if isurf < length ss \<and> i < length (globalCtlIndex (ss ! isurf))
         \<and> j < length (globalCtlIndex (ss ! isurf) ! i)
      then Inr (ss[isurf := (ss ! isurf)\<lparr>globalCtlIndex :=
                  (globalCtlIndex (ss ! isurf))[i := (globalCtlIndex (ss ! isurf) ! i)[j := v]]\<rparr>])
      else Inl IndexError)"

section \<open>Global indexing (\<open>pyGeo._findConIndex\<close>, \<open>pyGeo._setEdgeConnectivity\<close>)\<close>

text \<open>
  \<open>_findConIndex\<close> scans the edge list for the first record that names the face and edge
  as its first member (the face is then master, \<open>True\<close>) or as its second member
  (\<open>False\<close>), and exits when there is none.
\<close>

fun findConIndex_from :: "nat \<Rightarrow> edge list \<Rightarrow> nat \<Rightarrow> int \<Rightarrow> error + (nat \<times> bool)" where
  "findConIndex_from i [] isurf edg =
     Inl (SysExit ''Error: Edge was not found in the edge list. EVERY edge MUST appear in the edge con list'')"
| "findConIndex_from i (c # cs) isurf edg =
     (if f1 c = int isurf \<and> e1 c = edg then Inr (i, True)
      else if f2 c = int isurf \<and> e2 c = edg then Inr (i, False)
      else findConIndex_from (Suc i) cs isurf edg)"

definition findConIndex :: "edge list \<Rightarrow> nat \<Rightarrow> int \<Rightarrow> error + (nat \<times> bool)" where
  "findConIndex cn isurf edg = findConIndex_from 0 cn isurf edg"

text \<open>
  The allocation of a new degree of freedom, which every master branch of the source
  repeats: the cell receives the current counter, a new alias list is opened and the cell
  is marked in the master array.
\<close>

definition new_master :: "nat \<Rightarrow> nat \<Rightarrow> nat \<Rightarrow> indexing \<Rightarrow> error + indexing" where
  "new_master isurf i j st =
     (case set_globalCtlIndex isurf i j (int (counter st)) (ix_surfs st) of
        Inl e \<Rightarrow> Inl e
      | Inr ss \<Rightarrow> Inr (st\<lparr>ix_surfs := ss,
                          ix_global_coef := ix_global_coef st @ [[(isurf, i, j)]],
                          counter := counter st + 1,
                          master_bool_array := (i, j) # master_bool_array st\<rparr>))"

text \<open>
  \<open>getGlobalIndexEdge\<close> belongs to pySpline; the indexing is parametrised by it. It is
  called on the master surface with the edge, the position along the edge and the direction.
\<close>

type_synonym edge_index_fn = "surf \<Rightarrow> int \<Rightarrow> int \<Rightarrow> int \<Rightarrow> error + int"

text \<open>
  The aliasing of a slave cell, which every slave branch repeats: the master surface
  \<open>self.surfs[patchID]\<close> is asked for the global index, the cell is appended to
  \<open>self.global_coef[g_index]\<close> and receives that index. All branches but one assign
  \<open>patchID\<close> first (\<open>alias_edge\<close>); the first slave branch of node 2 assigns to a
  differently spelled name and so uses whatever \<open>patchID\<close> holds (\<open>alias_edge_stale\<close>).
\<close>

definition alias_via ::
  "edge_index_fn \<Rightarrow> int \<Rightarrow> int \<Rightarrow> int \<Rightarrow> int \<Rightarrow> nat \<Rightarrow> nat \<Rightarrow> nat \<Rightarrow> indexing \<Rightarrow> error + (int \<times> indexing)" where
  "alias_via G pid edg t d isurf i j st =
     (case py_index (length (ix_surfs st)) pid of
        Inl e \<Rightarrow> Inl e
      | Inr p \<Rightarrow>
     (case G (ix_surfs st ! p) edg t d of
        Inl e \<Rightarrow> Inl e
      | Inr g_index \<Rightarrow>
     (case py_index (length (ix_global_coef st)) g_index of
        Inl e \<Rightarrow> Inl e
      | Inr k \<Rightarrow>
     (case set_globalCtlIndex isurf i j g_index (ix_surfs st) of
        Inl e \<Rightarrow> Inl e
      | Inr ss \<Rightarrow>
          Inr (g_index, st\<lparr>ix_surfs := ss,
                 ix_global_coef := (ix_global_coef st)[k := ix_global_coef st ! k @ [(isurf, i, j)]]\<rparr>)))))"

definition alias_edge ::
  "edge_index_fn \<Rightarrow> edge \<Rightarrow> int \<Rightarrow> nat \<Rightarrow> nat \<Rightarrow> nat \<Rightarrow> indexing \<Rightarrow> error + (int \<times> indexing)" where
  "alias_edge G c t isurf i j st =
     alias_via G (f1 c) (e1 c) t (dir c) isurf i j (st\<lparr>patchID := Some (f1 c)\<rparr>)"

definition alias_edge_stale ::
  "edge_index_fn \<Rightarrow> edge \<Rightarrow> int \<Rightarrow> nat \<Rightarrow> nat \<Rightarrow> nat \<Rightarrow> indexing \<Rightarrow> error + (int \<times> indexing)" where
  "alias_edge_stale G c t isurf i j st =
     (case patchID st of
        None \<Rightarrow> Inl UnboundLocalError
      | Some pid \<Rightarrow> alias_via G pid (e1 c) t (dir c) isurf i j st)"

definition edge_cell ::
  "edge_index_fn \<Rightarrow> edge list \<Rightarrow> int \<Rightarrow> int \<Rightarrow> nat \<Rightarrow> nat \<Rightarrow> nat \<Rightarrow> indexing \<Rightarrow> error + indexing" where
  "edge_cell G cn edg t isurf i j st =
     (case findConIndex cn isurf edg of
        Inl e \<Rightarrow> Inl e
      | Inr (icon, master) \<Rightarrow>
          if master then new_master isurf i j st
          else (case alias_edge G (cn ! icon) t isurf i j st of
                  Inl e \<Rightarrow> Inl e
                | Inr (g_index, st') \<Rightarrow> Inr st'))"



text \<open>
  The four corner branches. Node 0 prints a diagnostic when neither adjacent edge has
  this face as master, and prints the index it then takes through the first edge.
\<close>

definition both_false_lines :: "nat \<Rightarrow> nat \<Rightarrow> nat \<Rightarrow> string list" where
  "both_false_lines isurf icon1 icon2 =
     [''Both False'', ''isurf: '' @ dec_nat isurf,
      ''icon1,icon2: '' @ dec_nat icon1 @ '' '' @ dec_nat icon2]"

definition node0 ::
  "edge_index_fn \<Rightarrow> edge list \<Rightarrow> nat \<Rightarrow> nat \<Rightarrow> nat \<Rightarrow> indexing \<Rightarrow> error + indexing" where
  "node0 G cn isurf i j st =
     (case findConIndex cn isurf 0 of
        Inl e \<Rightarrow> Inl e
      | Inr (icon1, master1) \<Rightarrow>
     (case findConIndex cn isurf 2 of
        Inl e \<Rightarrow> Inl e
      | Inr (icon2, master2) \<Rightarrow>
          let st1 = (if master1 = False \<and> master2 = False
                     then st\<lparr>ix_stdout := ix_stdout st @ both_false_lines isurf icon1 icon2\<rparr>
                     else st)
          in if master1 \<and> master2 then new_master isurf i j st1
             else if master1 = False then
               (case alias_edge G (cn ! icon1) 0 isurf i j st1 of
                  Inl e \<Rightarrow> Inl e
                | Inr (g_index, st2) \<Rightarrow>
                    Inr (if master2 = False
                         then st2\<lparr>ix_stdout := ix_stdout st2 @ [''gindex: '' @ dec_int g_index]\<rparr>
                         else st2))
             else
               (case alias_edge G (cn ! icon2) 0 isurf i j st1 of
                  Inl e \<Rightarrow> Inl e
                | Inr (g_index, st2) \<Rightarrow> Inr st2)))"

definition node1 ::
  "edge_index_fn \<Rightarrow> edge list \<Rightarrow> nat \<Rightarrow> nat \<Rightarrow> nat \<Rightarrow> nat \<Rightarrow> indexing \<Rightarrow> error + indexing" where
  "node1 G cn Nu isurf i j st =
     (case findConIndex cn isurf 0 of
        Inl e \<Rightarrow> Inl e
      | Inr (icon1, master1) \<Rightarrow>
     (case findConIndex cn isurf 3 of
        Inl e \<Rightarrow> Inl e
      | Inr (icon2, master2) \<Rightarrow>
          if master1 \<and> master2 then new_master isurf i j st
          else if master1 = False then
            (case alias_edge G (cn ! icon1) (int Nu - 1) isurf i j st of
               Inl e \<Rightarrow> Inl e
             | Inr (g_index, st2) \<Rightarrow> Inr st2)
          else
            (case alias_edge G (cn ! icon2) 0 isurf i j st of
               Inl e \<Rightarrow> Inl e
             | Inr (g_index, st2) \<Rightarrow> Inr st2)))"

definition node2 ::
  "edge_index_fn \<Rightarrow> edge list \<Rightarrow> nat \<Rightarrow> nat \<Rightarrow> nat \<Rightarrow> nat \<Rightarrow> indexing \<Rightarrow> error + indexing" where
  "node2 G cn Nv isurf i j st =
     (case findConIndex cn isurf 1 of
        Inl e \<Rightarrow> Inl e
      | Inr (icon1, master1) \<Rightarrow>
     (case findConIndex cn isurf 2 of
        Inl e \<Rightarrow> Inl e
      | Inr (icon2, master2) \<Rightarrow>
          if master1 \<and> master2 then new_master isurf i j st
          else if master1 = False then
            (case alias_edge_stale G (cn ! icon1) 0 isurf i j st of
               Inl e \<Rightarrow> Inl e
             | Inr (g_index, st2) \<Rightarrow> Inr st2)
          else
            (case alias_edge G (cn ! icon2) (int Nv - 1) isurf i j st of
               Inl e \<Rightarrow> Inl e
             | Inr (g_index, st2) \<Rightarrow> Inr st2)))"

definition node3 ::
  "edge_index_fn \<Rightarrow> edge list \<Rightarrow> nat \<Rightarrow> nat \<Rightarrow> nat \<Rightarrow> nat \<Rightarrow> nat \<Rightarrow> indexing \<Rightarrow> error + indexing" where
  "node3 G cn Nu Nv isurf i j st =
     (case findConIndex cn isurf 1 of
        Inl e \<Rightarrow> Inl e
      | Inr (icon1, master1) \<Rightarrow>
     (case findConIndex cn isurf 3 of
        Inl e \<Rightarrow> Inl e
      | Inr (icon2, master2) \<Rightarrow>
          if master1 \<and> master2 then new_master isurf i j st
          else if master1 = False then
            (case alias_edge G (cn ! icon1) (int Nu - 1) isurf i j st of
               Inl e \<Rightarrow> Inl e
             | Inr (g_index, st2) \<Rightarrow> Inr st2)
          else
            (case alias_edge G (cn ! icon2) (int Nv - 1) isurf i j st of
               Inl e \<Rightarrow> Inl e
             | Inr (g_index, st2) \<Rightarrow> Inr st2)))"

text \<open>The \<open>if\<close>/\<open>elif\<close> chain over the position of cell \<open>(i,j)\<close>, in the source's order.\<close>

definition set_cell ::
  "edge_index_fn \<Rightarrow> edge list \<Rightarrow> nat \<Rightarrow> nat \<Rightarrow> nat \<Rightarrow> nat \<Rightarrow> nat \<Rightarrow> indexing \<Rightarrow> error + indexing" where
  "set_cell G cn Nu Nv isurf i j st =
     (if 0 < i \<and> int i < int Nu - 1 \<and> 0 < j \<and> int j < int Nv - 1 then new_master isurf i j st
      else if 0 < i \<and> int i < int Nu - 1 \<and> j = 0 then edge_cell G cn 0 (int i) isurf i j st
      else if 0 < i \<and> int i < int Nu - 1 \<and> int j = int Nv - 1 then edge_cell G cn 1 (int i) isurf i j st
      else if i = 0 \<and> 0 < j \<and> int j < int Nv - 1 then edge_cell G cn 2 (int j) isurf i j st
      else if int i = int Nu - 1 \<and> 0 < j \<and> int j < int Nv - 1 then edge_cell G cn 3 (int j) isurf i j st
      else if i = 0 \<and> j = 0 then node0 G cn isurf i j st
      else if int i = int Nu - 1 \<and> j = 0 then node1 G cn Nu isurf i j st
      else if i = 0 \<and> int j = int Nv - 1 then node2 G cn Nv isurf i j st
      else if int i = int Nu - 1 \<and> int j = int Nv - 1 then node3 G cn Nu Nv isurf i j st
      else Inr st)"

text \<open>
  The free shape of a patch: a boundary row or column without any master cell is dropped.
  The four tests read row 0, row \<open>Nctlu-1\<close>, column 0 and column \<open>Nctlv-1\<close> of the
  master array, which raises for an array without rows or columns.
\<close>

definition free_shape :: "nat \<Rightarrow> nat \<Rightarrow> (nat \<times> nat) list \<Rightarrow> int \<times> int" where
  "free_shape Nu Nv mba =
     (int Nu - (if list_ex (\<lambda>(i, j). i = 0) mba then 0 else 1)
             - (if list_ex (\<lambda>(i, j). int i = int Nu - 1) mba then 0 else 1),
      int Nv - (if list_ex (\<lambda>(i, j). j = 0) mba then 0 else 1)
             - (if list_ex (\<lambda>(i, j). int j = int Nv - 1) mba then 0 else 1))"

definition index_surface :: "edge_index_fn \<Rightarrow> edge list \<Rightarrow> nat \<Rightarrow> indexing \<Rightarrow> error + indexing" where
  "index_surface G cn isurf st =
     (let Nu = Nctlu (ix_surfs st ! isurf); Nv = Nctlv (ix_surfs st ! isurf) in
      case forE [0..<Nu] (\<lambda>i. forE [0..<Nv] (set_cell G cn Nu Nv isurf i))
             (st\<lparr>master_bool_array := []\<rparr>) of
        Inl e \<Rightarrow> Inl e
      | Inr st1 \<Rightarrow>
          if Nu = 0 \<or> Nv = 0 then Inl IndexError
          else Inr (st1\<lparr>ix_coef_shapes :=
                      ix_coef_shapes st1 @ [free_shape Nu Nv (master_bool_array st1)]\<rparr>))"

definition setEdgeConnectivity :: "edge_index_fn \<Rightarrow> pyGeo \<Rightarrow> error + pyGeo" where
  "setEdgeConnectivity G self =
     (case con self of
        None \<Rightarrow> Inl (SysExit ''Error: No edge connectivity is set yet. Either run  calcEdgeConnectivity or load in a .con file'')
      | Some cn \<Rightarrow>
          (case forE [0..<length (surfs self)] (index_surface G cn)
                  \<lparr>ix_surfs = surfs self, ix_global_coef = [], counter = 0, patchID = None,
                   master_bool_array = [], ix_coef_shapes = [], ix_stdout = stdout self\<rparr> of
             Inl e \<Rightarrow> Inl e
           | Inr st \<Rightarrow>
               Inr (self\<lparr>surfs := ix_surfs st, global_coef := ix_global_coef st,
                         Ncoef := counter st, coef_shapes := ix_coef_shapes st,
                         stdout := ix_stdout st\<rparr>)))"

text \<open>
  Modelled from the spec: \<open>surf_spline.getGlobalIndexEdge\<close> of pySpline is not among the
  sources. The spec has the slave "query the master patch for its global index at the
  corresponding position (accounting for direction)": position \<open>idx\<close> along the edge, counted
  from the far end when the direction is not 1, on the row or column of the master's
  \<open>globalCtlIndex\<close> that the edge number selects (0 = v-min, 1 = v-max, 2 = u-min,
  3 = u-max). It is used for the concrete scenarios only.
\<close>

definition getGlobalIndexEdge :: edge_index_fn where
  "getGlobalIndexEdge sf edg idx d =
     (if edg = 0 then
        get2 (globalCtlIndex sf) (if d = 1 then idx else int (Nctlu sf) - 1 - idx) 0
      else if edg = 1 then
        get2 (globalCtlIndex sf) (if d = 1 then idx else int (Nctlu sf) - 1 - idx) (int (Nctlv sf) - 1)
      else if edg = 2 then
        get2 (globalCtlIndex sf) 0 (if d = 1 then idx else int (Nctlv sf) - 1 - idx)
      else if edg = 3 then
        get2 (globalCtlIndex sf) (int (Nctlu sf) - 1) (if d = 1 then idx else int (Nctlv sf) - 1 - idx)
      else Inl ValueError)"


section \<open>Connectivity discovery (\<open>pyGeo.calcEdgeConnectivity\<close>)\<close>

text \<open>
  The working lists of the discovery: a joined entry
  \<open>[[isurf,i],[jpatch,j],cont_flag,dir_flag,dg]\<close> and a mirrored entry \<open>[[i,j],dg]\<close>;
  the driving group is the last component, \<open>-1\<close> while unassigned. \<open>raw_member\<close> is
  \<open>edges[index][order]\<close>.
\<close>

datatype raw_edge =
    Joined "nat \<times> nat" "nat \<times> nat" int int int
  | Mirrored "nat \<times> nat" int

fun raw_dg :: "raw_edge \<Rightarrow> int" where
  "raw_dg (Joined a b c d g) = g"
| "raw_dg (Mirrored a g) = g"

fun set_raw_dg :: "int \<Rightarrow> raw_edge \<Rightarrow> raw_edge" where
  "set_raw_dg v (Joined a b c d g) = Joined a b c d v"
| "set_raw_dg v (Mirrored a g) = Mirrored a v"

fun is_mirrored :: "raw_edge \<Rightarrow> bool" where
  "is_mirrored (Joined a b c d g) = False"
| "is_mirrored (Mirrored a g) = True"

fun raw_first :: "raw_edge \<Rightarrow> nat \<times> nat" where
  "raw_first (Joined a b c d g) = a"
| "raw_first (Mirrored a g) = a"

fun raw_member :: "raw_edge \<Rightarrow> nat \<Rightarrow> error + (nat \<times> nat)" where
  "raw_member (Joined a b c d g) ord = (if ord = 0 then Inr a else if ord = 1 then Inr b else Inl TypeError)"
| "raw_member (Mirrored a g) ord = (if ord = 0 then Inr a else if ord = 1 then Inl TypeError else Inl IndexError)"

text \<open>
  Modelled from the spec: \<open>flipEdge\<close> of \<open>geo_utils\<close> is not among the sources. The spec
  has each propagation step flip "the edge index to its opposite (0\<leftrightarrow>1, 2\<leftrightarrow>3)".
\<close>

definition flipEdge :: "nat \<Rightarrow> nat" where
  "flipEdge edg = (if edg = 0 then 1 else if edg = 1 then 0 else if edg = 2 then 3 else if edg = 3 then 2 else edg)"

text \<open>
  \<open>test_edge\<close> of \<open>geo_utils\<close> compares the geometry of two patch edges within the
  tolerance; the discovery is parametrised by its answer (coincident, direction flag) for
  the patches \<open>isurf < jpatch\<close> and their edges \<open>i\<close>, \<open>j\<close>.
\<close>

type_synonym test_edge_fn = "nat \<Rightarrow> nat \<Rightarrow> nat \<Rightarrow> nat \<Rightarrow> bool \<times> int"

definition find_joined :: "test_edge_fn \<Rightarrow> nat \<Rightarrow> raw_edge list" where
  "find_joined T nSurf =
     concat (map (\<lambda>isurf.
       concat (map (\<lambda>jpatch.
         concat (map (\<lambda>i.
           concat (map (\<lambda>j.
             (case T isurf jpatch i j of
                (coinc, dir_flag) \<Rightarrow>
                  if coinc then [Joined (isurf, i) (jpatch, j) 0 dir_flag (-1)] else []))
             [0..<4]))
           [0..<4]))
         [isurf + 1..<nSurf]))
       [0..<nSurf])"

fun joined_members :: "raw_edge list \<Rightarrow> (nat \<times> nat) list" where
  "joined_members [] = []"
| "joined_members (Joined a b c d g # es) = a # b # joined_members es"
| "joined_members (Mirrored a g # es) = joined_members es"

fun find_mirrored ::
  "(nat \<times> nat) list \<Rightarrow> raw_edge list \<times> (nat \<times> nat) list \<Rightarrow> raw_edge list \<times> (nat \<times> nat) list" where
  "find_mirrored [] acc = acc"
| "find_mirrored (fe # fes) (mirrored_edges, edge_list) =
     (if \<not> List.member edge_list fe
      then find_mirrored fes (mirrored_edges @ [Mirrored fe (-1)], edge_list @ [fe])
      else find_mirrored fes (mirrored_edges, edge_list))"

definition all_face_edges :: "nat \<Rightarrow> (nat \<times> nat) list" where
  "all_face_edges nSurf = concat (map (\<lambda>i. map (\<lambda>j. (i, j)) [0..<4]) [0..<nSurf])"

fun list_index_from :: "nat \<Rightarrow> 'a list \<Rightarrow> 'a \<Rightarrow> error + nat" where
  "list_index_from k [] x = Inl ValueError"
| "list_index_from k (y # ys) x = (if y = x then Inr k else list_index_from (Suc k) ys x)"

definition getConIndex :: "(nat \<times> nat) list \<Rightarrow> nat \<times> nat \<Rightarrow> nat \<Rightarrow> nat \<Rightarrow> error + (nat \<times> nat)" where
  "getConIndex edges edg nJoined nMirrored =
     (case list_index_from 0 edges edg of
        Inl e \<Rightarrow> Inl e
      | Inr i \<Rightarrow>
          if i < nJoined then Inr (i div 2, i mod 2)
          else Inr (nJoined div 2 + i - nJoined, 0))"

text \<open>
  The two \<open>while\<close> loops that carry a driving group across joined edges are the same loop
  started at different records. One round takes the member \<open>order\<close> of the current record,
  flips its edge, looks the flipped edge up, stops if that record already has a group,
  gives it the group, and stops at a mirrored record or goes on from the other member of
  the joined record found. The group counter has been incremented before the loops start,
  so it is a natural number here. Every round that goes on assigns one more record, which
  is the termination argument.
\<close>

definition unassigned :: "raw_edge list \<Rightarrow> nat" where
  "unassigned edges = length (filter (\<lambda>e. raw_dg e = -1) edges)"

function propagate ::
  "(nat \<times> nat) list \<Rightarrow> nat \<Rightarrow> nat \<Rightarrow> nat \<Rightarrow> raw_edge list \<Rightarrow> nat \<Rightarrow> nat \<Rightarrow> error + raw_edge list" where
  "propagate edge_list nJoined nMirror dg_counter edges index ord =
     (if index \<ge> length edges then Inl IndexError else
      case raw_member (edges ! index) ord of
        Inl e \<Rightarrow> Inl e
      | Inr (cur_face, cur_edge) \<Rightarrow>
     (case getConIndex edge_list (cur_face, flipEdge cur_edge) nJoined nMirror of
        Inl e \<Rightarrow> Inl e
      | Inr (new_index, ord') \<Rightarrow>
          if new_index \<ge> length edges then Inl IndexError
          else if raw_dg (edges ! new_index) \<noteq> -1 then Inr edges
          else if is_mirrored (edges ! new_index)
          then Inr (edges[new_index := set_raw_dg (int dg_counter) (edges ! new_index)])
          else propagate edge_list nJoined nMirror dg_counter
                 (edges[new_index := set_raw_dg (int dg_counter) (edges ! new_index)])
                 new_index (if ord' = 0 then 1 else 0)))"
  by pat_completeness auto

lemma unassigned_update:
  "k < length es \<Longrightarrow> raw_dg (es ! k) = -1 \<Longrightarrow> raw_dg e' \<noteq> -1 \<Longrightarrow>
   unassigned (es[k := e']) < unassigned es"
proof (induction es arbitrary: k)
  case Nil
  then show ?case by simp
next
  case (Cons a es)
  show ?case
  proof (cases k)
    case 0
    with Cons.prems show ?thesis by (simp add: unassigned_def)
  next
    case (Suc m)
    with Cons.prems have "unassigned (es[m := e']) < unassigned es"
      by (intro Cons.IH) simp_all
    with Suc show ?thesis by (simp add: unassigned_def)
  qed
qed

lemma raw_dg_set_raw_dg: "raw_dg (set_raw_dg v e) = v"
  by (cases e) simp_all

termination propagate
  apply (relation "measure (\<lambda>(edge_list, nJoined, nMirror, dg_counter, edges, index, ord). unassigned edges)")
   apply simp
  apply (simp add: unassigned_update raw_dg_set_raw_dg)
  done

declare propagate.simps [simp del]


text \<open>One pass of the loop over all records: an unassigned record opens a new group.\<close>

definition assign_step ::
  "(nat \<times> nat) list \<Rightarrow> nat \<Rightarrow> nat \<Rightarrow> nat \<Rightarrow> int \<times> raw_edge list \<Rightarrow> error + (int \<times> raw_edge list)" where
  "assign_step edge_list nJoined nMirror i acc =
     (case acc of (dg_counter, edges) \<Rightarrow>
      if i \<ge> length edges then Inl IndexError
      else if raw_dg (edges ! i) \<noteq> -1 then Inr (dg_counter, edges)
      else
        let dgc = dg_counter + 1;
            edges1 = edges[i := set_raw_dg dgc (edges ! i)];
            flip_edge = flipEdge (snd (raw_first (edges1 ! i)))
        in case getConIndex edge_list (fst (raw_first (edges1 ! i)), flip_edge) nJoined nMirror of
             Inl e \<Rightarrow> Inl e
           | Inr (flip_index, ord) \<Rightarrow>
               if flip_index \<ge> length edges1 then Inl IndexError
               else
                 let edges2 = edges1[flip_index := set_raw_dg dgc (edges1 ! flip_index)] in
                 case (if is_mirrored (edges2 ! i) then Inr edges2
                       else propagate edge_list nJoined nMirror (nat dgc) edges2 i 1) of
                   Inl e \<Rightarrow> Inl e
                 | Inr edges3 \<Rightarrow>
                     (case (if is_mirrored (edges3 ! flip_index) then Inr edges3
                            else propagate edge_list nJoined nMirror (nat dgc) edges3 flip_index 1) of
                        Inl e \<Rightarrow> Inl e
                      | Inr edges4 \<Rightarrow> Inr (dgc, edges4)))"

text \<open>
  The edge objects are created from formatted rows: the first \<open>nJoined/2\<close> records with
  the joined layout (type 1, dof 7, Nctl 10), the others with the mirrored layout (type 0,
  dof 3, Nctl 10).
\<close>

definition init_string :: "nat \<Rightarrow> nat \<Rightarrow> raw_edge \<Rightarrow> error + string" where
  "init_string nJoined i e =
     (if i < nJoined div 2 then
        (case e of
           Joined a b c d g \<Rightarrow>
             Inr (fmt_row (int i) (int (fst a)) (int (snd a)) 1 7 c d g 10 (int (fst b)) (int (snd b)))
         | Mirrored a g \<Rightarrow> Inl IndexError)
      else
        (case e of
           Mirrored a g \<Rightarrow>
             Inr (fmt_row (int i) (int (fst a)) (int (snd a)) 0 3 (-1) 1 g 10 (-1) (-1))
         | Joined a b c d g \<Rightarrow> Inl TypeError))"

definition make_edge :: "nat \<Rightarrow> nat \<times> raw_edge \<Rightarrow> error + edge" where
  "make_edge nJoined ie =
     (case init_string nJoined (fst ie) (snd ie) of
        Inl e \<Rightarrow> Inl e
      | Inr str \<Rightarrow> edge_init (replace_bars str))"

definition discover :: "test_edge_fn \<Rightarrow> nat \<Rightarrow> error + edge list" where
  "discover T nSurf =
     (let e_con = find_joined T nSurf;
          found = find_mirrored (all_face_edges nSurf) ([], joined_members e_con);
          mirrored_edges = fst found;
          edge_list = snd found;
          nJoined = length e_con * 2;
          nMirror = length mirrored_edges;
          edges = e_con @ mirrored_edges
      in case forE [0..<length edges] (assign_step edge_list nJoined nMirror) (-1, edges) of
           Inl e \<Rightarrow> Inl e
         | Inr (dg_counter, edges') \<Rightarrow> mapE (make_edge nJoined) (enumerate 0 edges'))"

text \<open>
  \<open>calcEdgeConnectivity\<close> and \<open>readEdgeConnectivity\<close> ask on standard input before they
  replace an existing connectivity: the answer \<open>0\<close> returns at once, any other answer goes
  on. Standard input is the list of lines still to be read.
\<close>

definition raw_input :: "string list \<Rightarrow> error + (string \<times> string list)" where
  "raw_input stdin = (case stdin of [] \<Rightarrow> Inl EOFError | ans # rest \<Rightarrow> Inr (ans, rest))"

definition calcEdgeConnectivity_run ::
  "edge_index_fn \<Rightarrow> test_edge_fn \<Rightarrow> pyGeo \<Rightarrow> error + pyGeo" where
  "calcEdgeConnectivity_run G T self =
     (case discover T (length (surfs self)) of
        Inl e \<Rightarrow> Inl e
      | Inr cn \<Rightarrow> setEdgeConnectivity G (self\<lparr>con := Some cn\<rparr>))"

definition calcEdgeConnectivity ::
  "edge_index_fn \<Rightarrow> test_edge_fn \<Rightarrow> string list \<Rightarrow> pyGeo \<Rightarrow> error + (pyGeo \<times> string list)" where
  "calcEdgeConnectivity G T stdin self =
     (if con self \<noteq> None then
        (case raw_input stdin of
           Inl e \<Rightarrow> Inl e
         | Inr (ans, rest) \<Rightarrow>
             if ans = ''0'' then Inr (self, rest)
             else (case calcEdgeConnectivity_run G T self of
                     Inl e \<Rightarrow> Inl e
                   | Inr self' \<Rightarrow> Inr (self', rest)))
      else (case calcEdgeConnectivity_run G T self of
              Inl e \<Rightarrow> Inl e
            | Inr self' \<Rightarrow> Inr (self', stdin)))"

section \<open>The connectivity file (\<open>writeEdgeConnectivity\<close>, \<open>readEdgeConnectivity\<close>)\<close>

text \<open>A file is the list of its lines: the header, then one row for each record.\<close>

definition header_line :: string where
  "header_line = ''Connection | Face    Edge  | Type | dof  | Continutiy | Dir? | Driving Group | Nctl | Face    Edge     |'' @ [CHR 0x0A]"

definition writeEdgeConnectivity :: "pyGeo \<Rightarrow> error + string list" where
  "writeEdgeConnectivity self =
     (case con self of
        None \<Rightarrow> Inl TypeError
      | Some cn \<Rightarrow> Inr (header_line # map (\<lambda>ie. write_info (fst ie) (snd ie)) (enumerate 0 cn)))"

text \<open>
  Reading takes the bars out of every line, skips the header and builds one edge object
  from each remaining line; then the global indexing runs on the new list.
\<close>

definition read_records :: "string list \<Rightarrow> error + edge list" where
  "read_records lines = mapE edge_init (drop 1 (map replace_bars lines))"

definition readEdgeConnectivity_run :: "edge_index_fn \<Rightarrow> string list \<Rightarrow> pyGeo \<Rightarrow> error + pyGeo" where
  "readEdgeConnectivity_run G lines self =
     (case read_records lines of
        Inl e \<Rightarrow> Inl e
      | Inr cn \<Rightarrow> setEdgeConnectivity G (self\<lparr>con := Some cn\<rparr>))"

definition readEdgeConnectivity ::
  "edge_index_fn \<Rightarrow> string list \<Rightarrow> string list \<Rightarrow> pyGeo \<Rightarrow> error + (pyGeo \<times> string list)" where
  "readEdgeConnectivity G lines stdin self =
     (if con self \<noteq> None then
        (case raw_input stdin of
           Inl e \<Rightarrow> Inl e
         | Inr (ans, rest) \<Rightarrow>
             if ans = ''0'' then Inr (self, rest)
             else (case readEdgeConnectivity_run G lines self of
                     Inl e \<Rightarrow> Inl e
                   | Inr self' \<Rightarrow> Inr (self', rest)))
      else (case readEdgeConnectivity_run G lines self of
              Inl e \<Rightarrow> Inl e
            | Inr self' \<Rightarrow> Inr (self', stdin)))"

section \<open>Knot-vector propagation (\<open>pyGeo.propagateKnotVectors\<close>)\<close>

text \<open>
  The part of a surface that \<open>propagateKnotVectors\<close> reads and writes: the two knot
  vectors. Knots are modelled as exact reals.
\<close>

record knots =
  tu :: "real list"
  tv :: "real list"









text \<open>
  Two rectangular patches with a 6 by 4 control grid each, as pySpline hands them over
  (no index assigned yet), and an edge matcher that finds edge 1 of patch 0 coincident
  with edge 0 of patch 1, with direction flag \<open>d\<close>, and nothing else.
\<close>

definition fresh_surf :: "nat \<Rightarrow> nat \<Rightarrow> surf" where
  "fresh_surf nu nv = \<lparr>Nctlu = nu, Nctlv = nv, globalCtlIndex = replicate nu (replicate nv (-1))\<rparr>"

definition two_patches :: pyGeo where
  "two_patches = \<lparr>surfs = [fresh_surf 6 4, fresh_surf 6 4], con = None,
         global_coef = [], Ncoef = 0, coef_shapes = [], stdout = []\<rparr>"

definition shared_edge :: "int \<Rightarrow> test_edge_fn" where
  "shared_edge d isurf jpatch i j = (isurf = 0 \<and> jpatch = 1 \<and> i = 1 \<and> j = 0, d)"

text \<open>Summaries of a result, for the statements about concrete runs.\<close>

definition con_list :: "pyGeo \<Rightarrow> edge list" where
  "con_list g = (case con g of None \<Rightarrow> [] | Some cn \<Rightarrow> cn)"

definition summary :: "pyGeo \<times> string list \<Rightarrow> edge list \<times> nat \<times> nat \<times> nat" where
  "summary gr = (filter (\<lambda>c. type c = 1) (con_list (fst gr)),
                 length (filter (\<lambda>c. type c = 0) (con_list (fst gr))),
                 length (con_list (fst gr)), Ncoef (fst gr))"

definition dofs_and_output :: "pyGeo \<Rightarrow> nat \<times> string list" where
  "dofs_and_output g = (Ncoef g, stdout g)"

definition dofs_and_input :: "pyGeo \<times> string list \<Rightarrow> nat \<times> string list" where
  "dofs_and_input gr = (Ncoef (fst gr), snd gr)"

definition with_rest :: "string list \<Rightarrow> pyGeo \<Rightarrow> pyGeo \<times> string list" where
  "with_rest rest g = (g, rest)"

definition print_gindex :: "int \<times> indexing \<Rightarrow> indexing" where
  "print_gindex gs = (snd gs)\<lparr>ix_stdout := ix_stdout (snd gs) @ [''gindex: '' @ dec_int (fst gs)]\<rparr>"

text \<open>A joined record as \<open>calcEdgeConnectivity\<close> creates it (type 1, C0, dof 7, Nctl 10).\<close>

definition joined_rec :: "int \<Rightarrow> int \<Rightarrow> int \<Rightarrow> int \<Rightarrow> int \<Rightarrow> int \<Rightarrow> edge" where
  "joined_rec a b c d dr g =
     \<lparr>type = 1, f1 = a, e1 = b, f2 = c, e2 = d, cont = 0, dir = dr, dg = g, dof = 7, Nctl = 10\<rparr>"

text \<open>
  Two 3 by 3 patches joined along all four edges (an upper and a lower skin closed all
  round): every edge of patch 1 is the second member of its record, so each corner of
  patch 1 has two adjacent edges on which patch 1 is slave.
\<close>

definition pillow_con :: "edge list" where
  "pillow_con =
     [joined_rec 0 0 1 0 1 0, joined_rec 0 1 1 1 1 0, joined_rec 0 2 1 2 1 1, joined_rec 0 3 1 3 1 1]"

definition pillow :: pyGeo where
  "pillow = \<lparr>surfs = [fresh_surf 3 3, fresh_surf 3 3], con = Some pillow_con,
              global_coef = [], Ncoef = 0, coef_shapes = [], stdout = []\<rparr>"

text \<open>The indexing of two 2 by 2 patches at the moment patch 0 is done and patch 1 starts.\<close>

definition corner_state :: indexing where
  "corner_state =
     \<lparr>ix_surfs = [\<lparr>Nctlu = 2, Nctlv = 2, globalCtlIndex = [[0, 1], [2, 3]]\<rparr>, fresh_surf 2 2],
      ix_global_coef = [[(0, 0, 0)], [(0, 0, 1)], [(0, 1, 0)], [(0, 1, 1)]], counter = 4,
      patchID = None, master_bool_array = [], ix_coef_shapes = [(2, 2)], ix_stdout = []\<rparr>"

text \<open>The two patches once a connectivity (here an empty one) has been set.\<close>

definition already_connected :: pyGeo where
  "already_connected = two_patches\<lparr>con := Some []\<rparr>"

text \<open>
  The bookkeeping of the indexing, for the proofs: the multiset of all aliases listed so
  far, the shape of a surface, and the relation between two states of the indexing that
  holds when exactly the cells \<open>cs\<close> have been listed in between, the counter has kept
  step with the number of entries and no surface has changed shape.
\<close>

definition aliases :: "indexing \<Rightarrow> (nat \<times> nat \<times> nat) multiset" where
  "aliases st = mset (concat (ix_global_coef st))"

definition dims :: "surf \<Rightarrow> nat \<times> nat" where
  "dims sf = (Nctlu sf, Nctlv sf)"

definition grow :: "indexing \<Rightarrow> indexing \<Rightarrow> nat \<times> nat \<times> nat \<Rightarrow> bool" where
  "grow st st' c =
     (aliases st' = aliases st + {#c#}
      \<and> counter st' + length (ix_global_coef st) = counter st + length (ix_global_coef st')
      \<and> map dims (ix_surfs st') = map dims (ix_surfs st))"

definition grows :: "indexing \<Rightarrow> indexing \<Rightarrow> (nat \<times> nat \<times> nat) list \<Rightarrow> bool" where
  "grows st st' cs =
     (aliases st' = aliases st + mset cs
      \<and> counter st' + length (ix_global_coef st) = counter st + length (ix_global_coef st')
      \<and> map dims (ix_surfs st') = map dims (ix_surfs st))"

text \<open>The cells of one patch and of all patches, in the order the loops visit them.\<close>

definition patch_cells :: "nat \<Rightarrow> nat \<times> nat \<Rightarrow> (nat \<times> nat \<times> nat) list" where
  "patch_cells p d = concat (map (\<lambda>i. map (\<lambda>j. (p, i, j)) [0..<snd d]) [0..<fst d])"

definition all_cells :: "(nat \<times> nat) list \<Rightarrow> (nat \<times> nat \<times> nat) list" where
  "all_cells D = concat (map (\<lambda>p. patch_cells p (D ! p)) [0..<length D])"

text \<open>The number of entries of \<open>global_coef\<close> that contain a given alias.\<close>

definition holders :: "(nat \<times> nat \<times> nat) list list \<Rightarrow> nat \<times> nat \<times> nat \<Rightarrow> nat" where
  "holders gc c = length (filter (\<lambda>entry. List.member entry c) gc)"

text \<open>The closed two-patch skin after indexing.\<close>

definition pillow_indexed :: pyGeo where
  "pillow_indexed =
     \<lparr>surfs = [\<lparr>Nctlu = 3, Nctlv = 3, globalCtlIndex = [[0, 1, 2], [3, 4, 5], [6, 7, 8]]\<rparr>,
               \<lparr>Nctlu = 3, Nctlv = 3, globalCtlIndex = [[0, 1, 2], [3, 9, 5], [6, 7, 8]]\<rparr>],
      con = Some pillow_con,
      global_coef =
        [[(0, 0, 0), (1, 0, 0)], [(0, 0, 1), (1, 0, 1)], [(0, 0, 2), (1, 0, 2)],
         [(0, 1, 0), (1, 1, 0)], [(0, 1, 1)], [(0, 1, 2), (1, 1, 2)],
         [(0, 2, 0), (1, 2, 0)], [(0, 2, 1), (1, 2, 1)], [(0, 2, 2), (1, 2, 2)], [(1, 1, 1)]],
      Ncoef = 10, coef_shapes = [(3, 3), (1, 1)],
      stdout = [''Both False'', ''isurf: 1'', ''icon1,icon2: 0 2'', ''gindex: 0'']\<rparr>"

text \<open>A token of a row: not empty, free of white space and of bars.\<close>

definition is_token :: "string \<Rightarrow> bool" where
  "is_token tok = (tok \<noteq> [] \<and> list_all (\<lambda>c. \<not> is_space c \<and> c \<noteq> CHR ''|'') tok)"

text \<open>
  What \<open>edge.__init__\<close> establishes for every edge object, whichever line it read: a
  record of type 0 has the fixed continuity, direction and second face and edge, any other
  record has \<open>dof = 7\<close>.
\<close>

definition canonical :: "edge \<Rightarrow> bool" where
  "canonical e =
     (if type e = 0 then cont e = -1 \<and> dir e = 1 \<and> f2 e = -1 \<and> e2 e = -1 else dof e = 7)"

text \<open>
  A table in which the first (master) face of every record that has a second face comes
  before that second face in the patch order, as in every table \<open>calcEdgeConnectivity\<close>
  builds (\<open>isurf < jpatch\<close>); and a \<open>globalCtlIndex\<close> array of shape
  \<open>Nctlu \<times> Nctlv\<close>.
\<close>

definition master_first :: "edge list \<Rightarrow> bool" where
  "master_first cn = list_all (\<lambda>c. f2 c < 0 \<or> (0 \<le> f1 c \<and> f1 c < f2 c)) cn"

definition wf_surf :: "surf \<Rightarrow> bool" where
  "wf_surf sf = (length (globalCtlIndex sf) = Nctlu sf
                 \<and> list_all (\<lambda>row. length row = Nctlv sf) (globalCtlIndex sf))"

text \<open>
  The relation between two runs of the indexing over the same table, used to show that the
  result does not depend on what the index arrays held before: the runs agree on
  everything but the printed text and on the arrays of the patches already done, and on
  the cells of the current patch already written.
\<close>

definition shape :: "surf \<Rightarrow> nat \<times> nat \<times> nat list" where
  "shape sf = (Nctlu sf, Nctlv sf, map length (globalCtlIndex sf))"

definition agree ::
  "(nat \<times> nat \<times> nat list) list \<Rightarrow> nat \<Rightarrow> (nat \<times> nat) list \<Rightarrow> surf list \<Rightarrow> surf list \<Rightarrow> bool" where
  "agree S p done A B =
     (map shape A = S \<and> map shape B = S
      \<and> take p A = take p B
      \<and> list_all (\<lambda>c. globalCtlIndex (A ! p) ! fst c ! snd c = globalCtlIndex (B ! p) ! fst c ! snd c) done)"

definition core :: "indexing \<Rightarrow> (nat \<times> nat \<times> nat) list list \<times> nat \<times> int option \<times> (nat \<times> nat) list \<times> (int \<times> int) list" where
  "core st = (ix_global_coef st, counter st, patchID st, master_bool_array st, ix_coef_shapes st)"

definition pid_below :: "nat \<Rightarrow> indexing \<Rightarrow> bool" where
  "pid_below p st = (case patchID st of None \<Rightarrow> True | Some pid \<Rightarrow> 0 \<le> pid \<and> pid < int p)"

definition sim ::
  "(nat \<times> nat \<times> nat list) list \<Rightarrow> nat \<Rightarrow> (nat \<times> nat) list \<Rightarrow> indexing \<Rightarrow> indexing \<Rightarrow> bool" where
  "sim S p done a b = (core a = core b \<and> pid_below p a \<and> agree S p done (ix_surfs a) (ix_surfs b))"

text \<open>Two results of a fallible step: if the first succeeds, so does the second, in relation.\<close>

definition follows ::
  "(nat \<times> nat \<times> nat list) list \<Rightarrow> nat \<Rightarrow> (nat \<times> nat) list \<Rightarrow> error + indexing \<Rightarrow> error + indexing \<Rightarrow> bool" where
  "follows S p dn ra rb =
     (case ra of Inl e \<Rightarrow> True
      | Inr a' \<Rightarrow> (case rb of Inl e \<Rightarrow> False | Inr b' \<Rightarrow> sim S p dn a' b'))"

definition liftR :: "('s \<Rightarrow> 's \<Rightarrow> bool) \<Rightarrow> error + 's \<Rightarrow> error + 's \<Rightarrow> bool" where
  "liftR R ra rb =
     (case ra of Inl e \<Rightarrow> True | Inr a' \<Rightarrow> (case rb of Inl e \<Rightarrow> False | Inr b' \<Rightarrow> R a' b'))"

text \<open>The cells written after \<open>q\<close> columns of a row and after \<open>q\<close> rows of a patch.\<close>

definition row_done :: "nat \<Rightarrow> nat \<Rightarrow> (nat \<times> nat) list" where
  "row_done i q = rev (map (\<lambda>j. (i, j)) [0..<q])"

definition rows_done :: "nat \<Rightarrow> nat \<Rightarrow> (nat \<times> nat) list" where
  "rows_done Nv q = concat (rev (map (\<lambda>i. row_done i Nv) [0..<q]))"

definition wf_shapes :: "(nat \<times> nat \<times> nat list) list \<Rightarrow> bool" where
  "wf_shapes S = list_all (\<lambda>sh. length (snd (snd sh)) = fst sh
                              \<and> list_all (\<lambda>l. l = fst (snd sh)) (snd (snd sh))) S"

text \<open>The state of the global indexer, and the state with which a run of the indexing starts.\<close>

definition indexer_state ::
  "pyGeo \<Rightarrow> edge list option \<times> surf list \<times> (nat \<times> nat \<times> nat) list list \<times> nat \<times> (int \<times> int) list" where
  "indexer_state g = (con g, surfs g, global_coef g, Ncoef g, coef_shapes g)"

definition start_indexing :: "pyGeo \<Rightarrow> indexing" where
  "start_indexing self = \<lparr>ix_surfs = surfs self, ix_global_coef = [], counter = 0, patchID = None,
     master_bool_array = [], ix_coef_shapes = [], ix_stdout = stdout self\<rparr>"

text \<open>A free record as \<open>calcEdgeConnectivity\<close> creates it (type 0, dof 3, Nctl 10).\<close>

definition free_rec :: "int \<Rightarrow> int \<Rightarrow> int \<Rightarrow> edge" where
  "free_rec a b g =
     \<lparr>type = 0, f1 = a, e1 = b, f2 = -1, e2 = -1, cont = -1, dir = 1, dg = g, dof = 3, Nctl = 10\<rparr>"

text \<open>
  Writing the table of \<open>self\<close> and reading it into \<open>other\<close> (the same object, or a new
  one over the same patches), and writing it and building the edge objects from the file.
\<close>

definition write_then_read :: "edge_index_fn \<Rightarrow> string list \<Rightarrow> pyGeo \<Rightarrow> pyGeo \<Rightarrow> error + (pyGeo \<times> string list)" where
  "write_then_read G stdin self other =
     bindE (writeEdgeConnectivity self) (\<lambda>lines. readEdgeConnectivity G lines stdin other)"

definition write_then_parse :: "pyGeo \<Rightarrow> error + edge list" where
  "write_then_parse self = bindE (writeEdgeConnectivity self) read_records"

definition indexer_and_input ::
  "pyGeo \<times> string list \<Rightarrow>
   (edge list option \<times> surf list \<times> (nat \<times> nat \<times> nat) list list \<times> nat \<times> (int \<times> int) list) \<times> string list" where
  "indexer_and_input gr = (indexer_state (fst gr), snd gr)"

text \<open>An object over the same patches that has no connectivity yet.\<close>

definition unindexed :: "pyGeo \<Rightarrow> pyGeo" where
  "unindexed g = g\<lparr>con := None\<rparr>"

text \<open>
  The edge object that a working entry of the discovery becomes, the entry without its
  driving group, the working list before any group is assigned, and the order of the two
  faces of a joined entry.
\<close>

fun rec_of :: "raw_edge \<Rightarrow> edge" where
  "rec_of (Joined a b c d g) =
     \<lparr>type = 1, f1 = int (fst a), e1 = int (snd a), f2 = int (fst b), e2 = int (snd b),
      cont = c, dir = d, dg = g, dof = 7, Nctl = 10\<rparr>"
| "rec_of (Mirrored a g) =
     \<lparr>type = 0, f1 = int (fst a), e1 = int (snd a), f2 = -1, e2 = -1,
      cont = -1, dir = 1, dg = g, dof = 3, Nctl = 10\<rparr>"

definition skel :: "raw_edge \<Rightarrow> raw_edge" where
  "skel e = set_raw_dg 0 e"

definition found_edges :: "test_edge_fn \<Rightarrow> nat \<Rightarrow> raw_edge list" where
  "found_edges T nSurf =
     find_joined T nSurf
     @ fst (find_mirrored (all_face_edges nSurf) ([], joined_members (find_joined T nSurf)))"

definition ordered :: "raw_edge \<Rightarrow> bool" where
  "ordered e = (case e of Joined a b c d g \<Rightarrow> fst a < fst b | Mirrored a g \<Rightarrow> True)"

text \<open>
  Two 2 by 2 patches without connectivity, and the same patches after discovery and
  indexing when edge 1 of patch 0 coincides with edge 0 of patch 1.
\<close>

definition two_squares :: pyGeo where
  "two_squares = \<lparr>surfs = [fresh_surf 2 2, fresh_surf 2 2], con = None,
                   global_coef = [], Ncoef = 0, coef_shapes = [], stdout = []\<rparr>"

definition two_squares_joined :: pyGeo where
  "two_squares_joined =
     \<lparr>surfs = [\<lparr>Nctlu = 2, Nctlv = 2, globalCtlIndex = [[0, 1], [2, 3]]\<rparr>,
               \<lparr>Nctlu = 2, Nctlv = 2, globalCtlIndex = [[1, 4], [3, 5]]\<rparr>],
      con = Some [joined_rec 0 1 1 0 1 0, free_rec 0 0 0, free_rec 0 2 1, free_rec 0 3 1,
                  free_rec 1 1 0, free_rec 1 2 2, free_rec 1 3 2],
      global_coef = [[(0, 0, 0)], [(0, 0, 1), (1, 0, 0)], [(0, 1, 0)], [(0, 1, 1), (1, 1, 0)],
                     [(1, 0, 1)], [(1, 1, 1)]],
      Ncoef = 6, coef_shapes = [(2, 2), (2, 1)], stdout = []\<rparr>"

text \<open>
  A record references a face and edge when it names them as its first or as its second
  member; \<open>ref_count\<close> is the number of records of a table that do.
\<close>

definition references :: "edge \<Rightarrow> nat \<Rightarrow> nat \<Rightarrow> bool" where
  "references c p e = ((f1 c = int p \<and> e1 c = int e) \<or> (f2 c = int p \<and> e2 c = int e))"

definition ref_count :: "edge list \<Rightarrow> nat \<Rightarrow> nat \<Rightarrow> nat" where
  "ref_count cn p e = length (filter (\<lambda>c. references c p e) cn)"

definition count_refs :: "nat \<Rightarrow> nat \<Rightarrow> pyGeo \<times> string list \<Rightarrow> nat" where
  "count_refs p e gr = ref_count (con_list (fst gr)) p e"

text \<open>
  Three 3 by 3 patches that meet along one edge: edge 1 of patch 0, edge 0 of patch 1 and
  edge 0 of patch 2 coincide pairwise.
\<close>

definition three_at_one_edge :: test_edge_fn where
  "three_at_one_edge isurf jpatch i j =
     ((isurf = 0 \<and> i = 1 \<and> (jpatch = 1 \<or> jpatch = 2) \<and> j = 0)
      \<or> (isurf = 1 \<and> i = 0 \<and> jpatch = 2 \<and> j = 0), 1)"

definition three_patches :: pyGeo where
  "three_patches = \<lparr>surfs = [fresh_surf 3 3, fresh_surf 3 3, fresh_surf 3 3], con = None,
                     global_coef = [], Ncoef = 0, coef_shapes = [], stdout = []\<rparr>"

text \<open>The faces and edges that a working entry names.\<close>

fun raw_members :: "raw_edge \<Rightarrow> (nat \<times> nat) list" where
  "raw_members (Joined a b c d g) = [a, b]"
| "raw_members (Mirrored a g) = [a]"

section \<open>Reference axes (\<open>pyGeo.addRefAxis\<close>)\<close>

text \<open>
  Points and rotation triples are rows of an \<open>N \<times> 3\<close> array. The curve objects belong to
  pySpline; \<open>addRefAxis\<close> is parametrised by what it asks of them: the least-squares and
  interpolating constructors for the position curve and for one rotation component over
  the parameter values \<open>s\<close> of the position curve, the parameter values \<open>x.s\<close> of a
  curve, and the evaluations \<open>getValue\<close> and \<open>getValueV\<close> at a spacing, which may be
  \<open>None\<close>. Every one of them may raise.
\<close>

type_synonym vec3 = "real \<times> real \<times> real"

record 'sp pySpline =
  lms_curve :: "vec3 list \<Rightarrow> int \<Rightarrow> error + 'sp"
  lms_component :: "real list \<Rightarrow> real list \<Rightarrow> int \<Rightarrow> error + 'sp"
  interpolate_curve :: "vec3 list \<Rightarrow> error + 'sp"
  interpolate_component :: "real list \<Rightarrow> real list \<Rightarrow> int \<Rightarrow> error + 'sp"
  curve_s :: "'sp \<Rightarrow> real list"
  getValue :: "'sp \<Rightarrow> real list option \<Rightarrow> error + vec3 list"
  getValueV :: "'sp \<Rightarrow> real list option \<Rightarrow> error + vec3 list"
  getValueV_component :: "'sp \<Rightarrow> real list option \<Rightarrow> error + real list"

text \<open>
  \<open>linspace(0,1,n)\<close>: \<open>n\<close> equally spaced values from 0 to 1, the single value 0 for
  \<open>n = 1\<close>, and \<open>ValueError\<close> for a negative \<open>n\<close>.
\<close>

definition linspace01 :: "int \<Rightarrow> error + real list" where
  "linspace01 n =
     (if n < 0 then Inl ValueError
      else if n = 1 then Inr [0]
      else Inr (map (\<lambda>i. real i / real_of_int (n - 1)) [0..<nat n]))"

text \<open>
  Lines 1528-1529 and 1553-1554: \<open>if not spacing == None: spacing = linspace(0,1,nrefsecs)\<close>.
  A spacing that was passed is replaced; a missing one stays \<open>None\<close>.
\<close>

definition override_spacing :: "int \<Rightarrow> real list option \<Rightarrow> error + real list option" where
  "override_spacing nrefsecs spacing =
     (case spacing of
        None \<Rightarrow> Inr None
      | Some given \<Rightarrow> (case linspace01 nrefsecs of Inl e \<Rightarrow> Inl e | Inr u \<Rightarrow> Inr (Some u)))"

text \<open>
  \<open>rotnew = zeros((nrefsecs,3))\<close> and the assignment of one column \<open>rotnew[:,c] = values\<close>,
  which takes \<open>nrefsecs\<close> values or repeats a single one and raises otherwise.
\<close>

definition assign_column :: "int \<Rightarrow> 'a list \<Rightarrow> error + 'a list" where
  "assign_column nrefsecs values =
     (if nrefsecs < 0 then Inl ValueError
      else if int (length values) = nrefsecs then Inr values
      else if length values = 1 then Inr (replicate (nat nrefsecs) (hd values))
      else Inl ValueError)"

definition rot_component :: "nat \<Rightarrow> vec3 \<Rightarrow> real" where
  "rot_component c r = (if c = 0 then fst r else if c = 1 then fst (snd r) else snd (snd r))"

definition new_rotations ::
  "'sp pySpline \<Rightarrow> int \<Rightarrow> real list option \<Rightarrow> 'sp \<Rightarrow> 'sp \<Rightarrow> 'sp \<Rightarrow> error + vec3 list" where
  "new_rotations L nrefsecs spacing rotxs rotys rotzs =
     (if nrefsecs < 0 then Inl ValueError else
      bindE (bindE (getValueV_component L rotxs spacing) (assign_column nrefsecs)) (\<lambda>c0.
      bindE (bindE (getValueV_component L rotys spacing) (assign_column nrefsecs)) (\<lambda>c1.
      bindE (bindE (getValueV_component L rotzs spacing) (assign_column nrefsecs)) (\<lambda>c2.
        Inr (zip c0 (zip c1 c2))))))"

text \<open>
  The first part of \<open>addRefAxis\<close> (lines 1513-1562): the anchor points and rotations of
  the new reference axis. The rest of the function builds the axis from them and attaches
  control points; it does not read \<open>spacing\<close>.
\<close>

definition addRefAxis_sections ::
  "'sp pySpline \<Rightarrow> vec3 list \<Rightarrow> vec3 list \<Rightarrow> int option \<Rightarrow> real list option
   \<Rightarrow> error + (vec3 list \<times> vec3 list)" where
  "addRefAxis_sections L X rot nrefsecs_arg spacing_arg =
     (let nrefsecs = (case nrefsecs_arg of None \<Rightarrow> int (length X) | Some n \<Rightarrow> n) in
      if nrefsecs < int (length X) then
        bindE (lms_curve L X nrefsecs) (\<lambda>x.
        bindE (lms_component L (curve_s L x) (map (rot_component 0) rot) nrefsecs) (\<lambda>rotxs.
        bindE (lms_component L (curve_s L x) (map (rot_component 1) rot) nrefsecs) (\<lambda>rotys.
        bindE (lms_component L (curve_s L x) (map (rot_component 2) rot) nrefsecs) (\<lambda>rotzs.
        bindE (override_spacing nrefsecs spacing_arg) (\<lambda>spacing.
        bindE (getValue L x spacing) (\<lambda>Xnew.
        bindE (new_rotations L nrefsecs spacing rotxs rotys rotzs) (\<lambda>rotnew.
          Inr (Xnew, rotnew))))))))
      else if nrefsecs = int (length X) then Inr (X, rot)
      else
        bindE (interpolate_curve L X) (\<lambda>x.
        bindE (interpolate_component L (curve_s L x) (map (rot_component 0) rot) nrefsecs) (\<lambda>rotxs.
        bindE (interpolate_component L (curve_s L x) (map (rot_component 1) rot) nrefsecs) (\<lambda>rotys.
        bindE (interpolate_component L (curve_s L x) (map (rot_component 2) rot) nrefsecs) (\<lambda>rotzs.
        bindE (override_spacing nrefsecs spacing_arg) (\<lambda>spacing.
        bindE (getValueV L x spacing) (\<lambda>Xnew.
        bindE (new_rotations L nrefsecs spacing rotxs rotys rotzs) (\<lambda>rotnew.
          Inr (Xnew, rotnew)))))))))"

text \<open>
  A stand-in for the curve library whose evaluations return the spacing they are given:
  a curve is its list of points, a component curve its list of values.
\<close>

definition echo_spline :: "(vec3 list + real list) pySpline" where
  "echo_spline =
     \<lparr>lms_curve = (\<lambda>X n. Inr (Inl X)),
      lms_component = (\<lambda>s v n. Inr (Inr v)),
      interpolate_curve = (\<lambda>X. Inr (Inl X)),
      interpolate_component = (\<lambda>s v n. Inr (Inr v)),
      curve_s = (\<lambda>c. []),
      getValue = (\<lambda>c sp. case sp of None \<Rightarrow> Inl TypeError | Some ts \<Rightarrow> Inr (map (\<lambda>t. (t, t, t)) ts)),
      getValueV = (\<lambda>c sp. case sp of None \<Rightarrow> Inl TypeError | Some ts \<Rightarrow> Inr (map (\<lambda>t. (t, t, t)) ts)),
      getValueV_component = (\<lambda>c sp. case sp of None \<Rightarrow> Inl TypeError | Some ts \<Rightarrow> Inr ts)\<rparr>"

definition two_anchors :: "vec3 list" where
  "two_anchors = [(0, 0, 0), (0, 10, 0)]"

definition no_rotation :: "vec3 list" where
  "no_rotation = [(0, 0, 0), (0, 0, 0)]"

section \<open>Design variables and the update (\<open>pyGeo._updateCoef\<close>, \<open>pyGeo.update\<close>, \<open>pyGeo.calcCtlDeriv\<close>)\<close>

text \<open>
  Reference-axis data is always complex: a row of such an array is a triple of complex
  numbers, a rotation matrix three rows. Numbers are exact; the rounding of the floating
  point is not modelled. \<open>vadd\<close> is \<open>+\<close> on rows, \<open>vscale\<close> a row times a scalar, and
  \<open>dot\<close> the matrix product of numpy.
\<close>

type_synonym cvec = "complex \<times> complex \<times> complex"

type_synonym cmat = "cvec \<times> cvec \<times> cvec"

definition vadd :: "cvec \<Rightarrow> cvec \<Rightarrow> cvec" where
  "vadd a b = (fst a + fst b, fst (snd a) + fst (snd b), snd (snd a) + snd (snd b))"

definition vscale :: "cvec \<Rightarrow> complex \<Rightarrow> cvec" where
  "vscale a c = (fst a * c, fst (snd a) * c, snd (snd a) * c)"

definition vdot :: "cvec \<Rightarrow> cvec \<Rightarrow> complex" where
  "vdot a b = fst a * fst b + fst (snd a) * fst (snd b) + snd (snd a) * snd (snd b)"

definition dot_mv :: "cmat \<Rightarrow> cvec \<Rightarrow> cvec" where
  "dot_mv m v = (vdot (fst m) v, vdot (fst (snd m)) v, vdot (snd (snd m)) v)"

definition mat_column :: "nat \<Rightarrow> cmat \<Rightarrow> cvec" where
  "mat_column c m =
     (if c = 0 then (fst (fst m), fst (fst (snd m)), fst (snd (snd m)))
      else if c = 1 then (fst (snd (fst m)), fst (snd (fst (snd m))), fst (snd (snd (snd m))))
      else (snd (snd (fst m)), snd (snd (fst (snd m))), snd (snd (snd (snd m)))))"

definition dot_mm :: "cmat \<Rightarrow> cmat \<Rightarrow> cmat" where
  "dot_mm a b =
     ((vdot (fst a) (mat_column 0 b), vdot (fst a) (mat_column 1 b), vdot (fst a) (mat_column 2 b)),
      (vdot (fst (snd a)) (mat_column 0 b), vdot (fst (snd a)) (mat_column 1 b),
       vdot (fst (snd a)) (mat_column 2 b)),
      (vdot (snd (snd a)) (mat_column 0 b), vdot (snd (snd a)) (mat_column 1 b),
       vdot (snd (snd a)) (mat_column 2 b)))"

text \<open>\<open>astype('D')\<close> and \<open>astype('d')\<close> on an array of rows; the latter keeps the real parts.\<close>

definition astype_D :: "vec3 list \<Rightarrow> cvec list" where
  "astype_D rows =
     map (\<lambda>r. (complex_of_real (fst r), complex_of_real (fst (snd r)), complex_of_real (snd (snd r)))) rows"

definition astype_d :: "cvec list \<Rightarrow> vec3 list" where
  "astype_d rows = map (\<lambda>r. (Re (fst r), Re (fst (snd r)), Re (snd (snd r)))) rows"

text \<open>
  Of a pySpline curve the update reads the parameter values \<open>s\<close> and the knots \<open>t\<close> and
  reads and writes the coefficients \<open>coef\<close>.
\<close>

record 'c linear_spline =
  spline_s :: "real list"
  spline_t :: "real list"
  spline_coef :: "'c list"

text \<open>
  The fields of a \<open>ref_axis\<close> object (lines 2363-2411). \<open>base_point_s\<close>, \<open>base_point_D\<close>,
  \<open>end_point_s\<close> and \<open>end_point_D\<close> are \<open>None\<close> until \<open>addRefAxisCon\<close> sets them;
  \<open>con_type\<close> is \<open>None\<close> or the string passed to \<open>addRefAxisCon\<close>. \<open>N\<close>, \<open>s\<close> and
  \<open>surf_ids\<close> are not read by the update and are left out.
\<close>

record ref_axis =
  links_s :: "real list"
  links_x :: "cvec list"
  coef_list :: "nat list"
  con_type :: "string option"
  base_point :: cvec
  base_point_s :: "real option"
  base_point_D :: "cvec option"
  end_point :: cvec
  end_point_s :: "real option"
  end_point_D :: "cvec option"
  ra_x :: "cvec list"
  ra_rot :: "cvec list"
  ra_scale :: "complex list"
  ra_x0 :: "cvec list"
  ra_rot0 :: "cvec list"
  ra_scale0 :: "complex list"
  ra_xs :: "cvec linear_spline"
  ra_rotxs :: "complex linear_spline"
  ra_rotys :: "complex linear_spline"
  ra_rotzs :: "complex linear_spline"
  ra_scales :: "complex linear_spline"

text \<open>
  The value of a global design variable is what the caller passed to \<open>addGeoDVGlobal\<close>: a
  number, a Python list of numbers or a complex numpy array. \<open>geoDVGlobal\<close> keeps the
  value, \<open>nVal\<close> (1 for an \<open>int\<close>, the length otherwise) and the user's function, which is
  called with the value and the list of axes and returns the list of axes (line 2488);
  name and bounds are not read by the update. The function is modelled as a function of
  its two arguments that may raise.
\<close>

datatype dv_value = Number complex | PyList "complex list" | NdArray "complex list"

record geoDVGlobal =
  dv_value :: dv_value
  nVal :: nat
  dv_function :: "dv_value \<Rightarrow> ref_axis list \<Rightarrow> error + ref_axis list"

definition geoDVGlobal_init ::
  "dv_value \<Rightarrow> (dv_value \<Rightarrow> ref_axis list \<Rightarrow> error + ref_axis list) \<Rightarrow> geoDVGlobal" where
  "geoDVGlobal_init v f =
     \<lparr>dv_value = v,
      nVal = (case v of Number z \<Rightarrow> 1 | PyList zs \<Rightarrow> length zs | NdArray zs \<Rightarrow> length zs),
      dv_function = f\<rparr>"

text \<open>
  \<open>geoDVLocal\<close> (lines 2512-2533): one value for each coefficient of \<open>coef_list\<close>, the
  patch, and the grid position of each coefficient on the patch.
\<close>

record geoDVLocal =
  local_value :: "complex list"
  local_nVal :: nat
  surface_id :: int
  local_coef_list :: "nat list"
  local_coef_index :: "(nat \<times> nat) list"

text \<open>
  Of a surface the update reads the control points \<open>coef\<close>, the knot vectors and the
  orders \<open>ku\<close>, \<open>kv\<close>, and writes \<open>coef\<close> and the flags \<open>updated\<close>.
\<close>

record ctl_surf = knots +
  ku :: nat
  kv :: nat
  surf_coef :: "vec3 list list"
  updated :: "real list list"

text \<open>A two-dimensional real array: its shape and its rows.\<close>

type_synonym ndarray2 = "(nat \<times> nat) \<times> real list list"

text \<open>
  The fields of the \<open>pyGeo\<close> object that the update and the derivative read and write:
  \<open>coef\<close>, \<open>surfs\<close>, \<open>global_coef\<close>, \<open>ref_axis\<close>, \<open>ref_axis_con\<close>, the two lists of
  design variables and the Jacobian \<open>J1\<close>.
\<close>

record updating =
  up_coef :: "vec3 list"
  up_surfs :: "ctl_surf list"
  up_global_coef :: "(nat \<times> nat \<times> nat) list list"
  up_ref_axis :: "ref_axis list"
  ref_axis_con :: "(int \<times> int \<times> string option) list"
  DV_listGlobal :: "geoDVGlobal list"
  DV_listLocal :: "geoDVLocal list"
  J1 :: "ndarray2 option"

text \<open>
  What the update asks of pySpline, numpy and \<open>geo_utils\<close>: the value of a component
  curve at \<open>s\<close> (\<open>self.rotxs(s)\<close>, \<open>self.scales(s)\<close>), the point of the axis curve at \<open>s\<close>
  (\<open>xs.getValue(s)\<close>), the three elementary rotation matrices, the matrix inverse, the
  point that \<open>getcomplexcoef\<close> computes for one attached coefficient from the arrays it is
  given, and the normal that \<open>updatesurfacepoints\<close> evaluates at a grid position of a
  surface.
\<close>

record numerics =
  spline_call :: "complex linear_spline \<Rightarrow> real option \<Rightarrow> error + complex"
  spline_getValue :: "cvec linear_spline \<Rightarrow> real option \<Rightarrow> error + cvec"
  rotxM :: "complex \<Rightarrow> cmat"
  rotyM :: "complex \<Rightarrow> cmat"
  rotzM :: "complex \<Rightarrow> cmat"
  linalg_inv :: "cmat \<Rightarrow> error + cmat"
  link_point :: "real list \<Rightarrow> real list \<Rightarrow> cvec list \<Rightarrow> cvec list \<Rightarrow> complex list
                 \<Rightarrow> real \<Rightarrow> cvec \<Rightarrow> cvec"
  ctl_normal :: "vec3 list list \<Rightarrow> real list \<Rightarrow> real list \<Rightarrow> nat \<Rightarrow> nat \<Rightarrow> nat \<times> nat \<Rightarrow> cvec"

text \<open>\<open>ref_axis.update\<close> (lines 2413-2426).\<close>

definition ref_axis_update :: "ref_axis \<Rightarrow> error + ref_axis" where
  "ref_axis_update ra =
     (let ra1 = ra\<lparr>ra_xs := (ra_xs ra)\<lparr>spline_coef := map (vadd (base_point ra)) (ra_x ra)\<rparr>,
                    ra_rotxs := (ra_rotxs ra)\<lparr>spline_coef := map (\<lambda>r. fst r) (ra_rot ra)\<rparr>,
                    ra_rotys := (ra_rotys ra)\<lparr>spline_coef := map (\<lambda>r. fst (snd r)) (ra_rot ra)\<rparr>,
                    ra_rotzs := (ra_rotzs ra)\<lparr>spline_coef := map (\<lambda>r. snd (snd r)) (ra_rot ra)\<rparr>,
                    ra_scales := (ra_scales ra)\<lparr>spline_coef := ra_scale ra\<rparr>\<rparr>
      in if con_type ra1 = Some ''full'' then
           (if spline_coef (ra_xs ra1) = [] then Inl IndexError
            else Inr (ra1\<lparr>ra_xs := (ra_xs ra1)\<lparr>spline_coef :=
                   (spline_coef (ra_xs ra1))[length (spline_coef (ra_xs ra1)) - 1 := end_point ra1]\<rparr>\<rparr>))
         else Inr ra1)"

text \<open>\<open>ref_axis.getRotMatrixLocalToGlobal\<close> (lines 2446-2451).\<close>

definition getRotMatrixLocalToGlobal :: "numerics \<Rightarrow> ref_axis \<Rightarrow> real option \<Rightarrow> error + cmat" where
  "getRotMatrixLocalToGlobal L ra s =
     bindE (spline_call L (ra_rotys ra) s) (\<lambda>ry.
     bindE (spline_call L (ra_rotxs ra) s) (\<lambda>rx.
     bindE (spline_call L (ra_rotzs ra) s) (\<lambda>rz.
       linalg_inv L (dot_mm (rotyM L ry) (dot_mm (rotxM L rx) (rotzM L rz))))))"

text \<open>
  The point \<open>X0 + D*scales(s)\<close> of the parent axis \<open>axis1\<close> to which a stored position
  \<open>s\<close> and offset \<open>D\<close> of the child belong (lines 1663-1671 and 1674-1682); \<open>dot(M,D)\<close>
  raises for an offset that is still \<open>None\<close>.
\<close>

definition follow_parent :: "numerics \<Rightarrow> ref_axis \<Rightarrow> real option \<Rightarrow> cvec option \<Rightarrow> error + cvec" where
  "follow_parent L parent s D =
     bindE (getRotMatrixLocalToGlobal L parent s) (\<lambda>M.
     bindE (case D of None \<Rightarrow> Inl TypeError | Some d \<Rightarrow> Inr (dot_mv M d)) (\<lambda>D'.
     bindE (spline_getValue L (ra_xs parent) s) (\<lambda>X0.
     bindE (spline_call L (ra_scales parent) s) (\<lambda>sc.
       Inr (vadd X0 (vscale D' sc))))))"

text \<open>One pass of the loop over \<open>ref_axis_con\<close> (lines 1659-1685).\<close>

definition chain_step ::
  "numerics \<Rightarrow> int \<times> int \<times> string option \<Rightarrow> ref_axis list \<Rightarrow> error + ref_axis list" where
  "chain_step L c axes =
     bindE (py_index (length axes) (fst c)) (\<lambda>axis1.
     bindE (ref_axis_update (axes ! axis1)) (\<lambda>parent.
     let axes1 = axes[axis1 := parent] in
     bindE (py_index (length axes1) (fst (snd c))) (\<lambda>axis2.
     bindE (follow_parent L (axes1 ! axis1) (base_point_s (axes1 ! axis2))
              (base_point_D (axes1 ! axis2))) (\<lambda>b.
     let axes2 = axes1[axis2 := (axes1 ! axis2)\<lparr>base_point := b\<rparr>] in
     bindE (if con_type (axes2 ! axis2) = Some ''full'' then
              bindE (follow_parent L (axes2 ! axis1) (end_point_s (axes2 ! axis2))
                       (end_point_D (axes2 ! axis2))) (\<lambda>e.
                Inr (axes2[axis2 := (axes2 ! axis2)\<lparr>end_point := e\<rparr>]))
            else Inr axes2) (\<lambda>axes3.
     bindE (ref_axis_update (axes3 ! axis2)) (\<lambda>child.
       Inr (axes3[axis2 := child])))))))"

text \<open>
  The first two steps of \<open>_updateCoef\<close> (lines 1650-1689): every global design variable
  is called with the list of axes and its result becomes the list of axes; then either the
  chained axes follow their parents, or, with no chaining, every axis is updated.
\<close>

definition update_axes ::
  "numerics \<Rightarrow> geoDVGlobal list \<Rightarrow> (int \<times> int \<times> string option) list \<Rightarrow> ref_axis list
   \<Rightarrow> error + ref_axis list" where
  "update_axes L dvs cons axes0 =
     bindE (forE dvs (\<lambda>d axes. dv_function d (dv_value d) axes) axes0) (\<lambda>axes.
       if length cons > 0 then forE cons (chain_step L) axes
       else mapE ref_axis_update axes)"

text \<open>
  Modelled from the spec: \<open>pyspline_cs.getcomplexcoef\<close> is not part of the source; the
  Python loop that it replaces is kept as a comment at lines 1705-1711. For every attached
  coefficient \<open>i\<close> it assigns to \<open>coef[coef_list[i]]\<close> the axis position at \<open>links_s[i]\<close>
  plus the rotated, scaled offset \<open>links_x[i]\<close>; the arithmetic of that point is
  \<open>link_point\<close>. An index outside the array is not written.
\<close>

definition getcomplexcoef ::
  "numerics \<Rightarrow> real list \<Rightarrow> cvec list \<Rightarrow> cvec list \<Rightarrow> nat list \<Rightarrow> real list \<Rightarrow> real list
   \<Rightarrow> cvec list \<Rightarrow> cvec list \<Rightarrow> complex list \<Rightarrow> cvec list" where
  "getcomplexcoef L lks_s lks_x cf cf_list xs_s xs_t xs_coef rt scale_coef =
     fold (\<lambda>l c. c[fst l := link_point L xs_s xs_t xs_coef rt scale_coef (fst (snd l)) (snd (snd l))])
       (zip cf_list (zip lks_s lks_x)) cf"

text \<open>
  The third step for one axis (lines 1694-1703): the rotation coefficients are gathered
  into an array of \<open>len(ra.xs.s)\<close> rows, then \<open>getcomplexcoef\<close> moves the attached
  coefficients.
\<close>

definition axis_rot :: "ref_axis \<Rightarrow> error + cvec list" where
  "axis_rot ra =
     (let n = int (length (spline_s (ra_xs ra))) in
      bindE (assign_column n (spline_coef (ra_rotxs ra))) (\<lambda>c0.
      bindE (assign_column n (spline_coef (ra_rotys ra))) (\<lambda>c1.
      bindE (assign_column n (spline_coef (ra_rotzs ra))) (\<lambda>c2.
        Inr (zip c0 (zip c1 c2))))))"

definition move_attached :: "numerics \<Rightarrow> ref_axis \<Rightarrow> cvec list \<Rightarrow> error + cvec list" where
  "move_attached L ra cf =
     bindE (axis_rot ra) (\<lambda>rt.
       Inr (getcomplexcoef L (links_s ra) (links_x ra) cf (coef_list ra) (spline_s (ra_xs ra))
              (spline_t (ra_xs ra)) (spline_coef (ra_xs ra)) rt (spline_coef (ra_scales ra))))"

text \<open>
  Modelled from the spec: \<open>pyspline_cs.updatesurfacepoints\<close> is not part of the source.
  Each local design variable adds its value times the patch normal at its grid position to
  the coefficient it is attached to; the normal is evaluated on the control points and
  knot vectors of the surface as they are when the update runs. An index outside the array
  is not written.
\<close>

definition updatesurfacepoints ::
  "numerics \<Rightarrow> cvec list \<Rightarrow> (nat \<times> nat) list \<Rightarrow> nat list \<Rightarrow> complex list \<Rightarrow> vec3 list list
   \<Rightarrow> real list \<Rightarrow> real list \<Rightarrow> nat \<Rightarrow> nat \<Rightarrow> cvec list" where
  "updatesurfacepoints L cf index cf_list vals grid t_u t_v k_u k_v =
     fold (\<lambda>l c. if fst l < length c
                  then c[fst l := vadd (c ! fst l)
                         (vscale (ctl_normal L grid t_u t_v k_u k_v (fst (snd l))) (snd (snd l)))]
                  else c)
       (zip cf_list (zip index vals)) cf"

text \<open>\<open>geoDVLocal.__call__\<close> on \<open>self.surfs[surface_id]\<close> (lines 1720-1721 and 2536-2544).\<close>

definition apply_local :: "numerics \<Rightarrow> ctl_surf list \<Rightarrow> geoDVLocal \<Rightarrow> cvec list \<Rightarrow> error + cvec list" where
  "apply_local L ss d cf =
     bindE (py_index (length ss) (surface_id d)) (\<lambda>p.
       Inr (updatesurfacepoints L cf (local_coef_index d) (local_coef_list d) (local_value d)
              (surf_coef (ss ! p)) (tu (ss ! p)) (tv (ss ! p)) (ku (ss ! p)) (kv (ss ! p))))"

text \<open>
  \<open>_updateCoef\<close> (lines 1646-1724). It starts from a complex copy of \<open>self.coef\<close>, leaves
  the new axes in \<open>self.ref_axis\<close> and returns the coefficients. The argument \<open>local\<close> is
  never read.
\<close>

definition updateCoef :: "numerics \<Rightarrow> updating \<Rightarrow> error + (updating \<times> cvec list)" where
  "updateCoef L self =
     bindE (update_axes L (DV_listGlobal self) (ref_axis_con self) (up_ref_axis self)) (\<lambda>axes.
     bindE (forE axes (move_attached L) (astype_D (up_coef self))) (\<lambda>c1.
     bindE (forE (DV_listLocal self) (apply_local L (up_surfs self)) c1) (\<lambda>c2.
       Inr (self\<lparr>up_ref_axis := axes\<rparr>, c2))))"

text \<open>
  \<open>_updateSurfaceCoef\<close> (lines 1734-1746): every coefficient is copied to each grid
  position of its alias list and the position is flagged.
\<close>

definition scatter_one :: "vec3 \<Rightarrow> nat \<times> nat \<times> nat \<Rightarrow> ctl_surf list \<Rightarrow> error + ctl_surf list" where
  "scatter_one v a ss =
     (let isurf = fst a; i = fst (snd a); j = snd (snd a) in
      if isurf < length ss \<and> i < length (surf_coef (ss ! isurf))
         \<and> j < length (surf_coef (ss ! isurf) ! i)
         \<and> i < length (updated (ss ! isurf)) \<and> j < length (updated (ss ! isurf) ! i)
      then Inr (ss[isurf := (ss ! isurf)
             \<lparr>surf_coef := (surf_coef (ss ! isurf))[i := (surf_coef (ss ! isurf) ! i)[j := v]],
              updated := (updated (ss ! isurf))[i := (updated (ss ! isurf) ! i)[j := 1]]\<rparr>])
      else Inl IndexError)"

definition updateSurfaceCoef :: "updating \<Rightarrow> error + updating" where
  "updateSurfaceCoef self =
     bindE (forE [0..<length (up_coef self)]
              (\<lambda>ii ss. if ii < length (up_global_coef self)
                        then forE (up_global_coef self ! ii) (scatter_one (up_coef self ! ii)) ss
                        else Inl IndexError)
              (up_surfs self)) (\<lambda>ss.
       Inr (self\<lparr>up_surfs := ss\<rparr>))"

text \<open>\<open>update\<close> (lines 1726-1732).\<close>

definition update :: "numerics \<Rightarrow> updating \<Rightarrow> error + updating" where
  "update L self =
     bindE (updateCoef L self) (\<lambda>r.
       updateSurfaceCoef ((fst r)\<lparr>up_coef := astype_d (snd r)\<rparr>))"

text \<open>
  The complex step \<open>h = 1.0e-40j\<close>, and the statements \<open>value += h\<close>, \<open>value[jj] += h\<close>
  and their counterparts with \<open>-=\<close> (lines 1794-1798 and 1806-1810), for the operation
  \<open>f\<close> on one number. With \<open>nVal == 1\<close> the whole value is operated on: a list raises, an
  array is changed in every component. Otherwise component \<open>jj\<close> is, which a number does
  not have.
\<close>

definition h_step :: complex where
  "h_step = Complex 0 (1 / 10 ^ 40)"

definition inplace :: "nat \<Rightarrow> nat \<Rightarrow> (complex \<Rightarrow> complex) \<Rightarrow> dv_value \<Rightarrow> error + dv_value" where
  "inplace n jj f v =
     (if n = 1 then
        (case v of
           Number z \<Rightarrow> Inr (Number (f z))
         | PyList zs \<Rightarrow> Inl TypeError
         | NdArray zs \<Rightarrow> Inr (NdArray (map f zs)))
      else
        (case v of
           Number z \<Rightarrow> Inl TypeError
         | PyList zs \<Rightarrow> if jj < length zs then Inr (PyList (zs[jj := f (zs ! jj)])) else Inl IndexError
         | NdArray zs \<Rightarrow> if jj < length zs then Inr (NdArray (zs[jj := f (zs ! jj)])) else Inl IndexError))"

definition set_dv_value :: "nat \<Rightarrow> nat \<Rightarrow> nat \<Rightarrow> (complex \<Rightarrow> complex) \<Rightarrow> updating \<Rightarrow> error + updating" where
  "set_dv_value idv n jj f self =
     (if idv < length (DV_listGlobal self) then
        bindE (inplace n jj f (dv_value (DV_listGlobal self ! idv))) (\<lambda>v.
          Inr (self\<lparr>DV_listGlobal := (DV_listGlobal self)[idv := (DV_listGlobal self ! idv)\<lparr>dv_value := v\<rparr>]\<rparr>))
      else Inl IndexError)"

text \<open>
  \<open>if not self.J1\<close> (line 1756): \<open>None\<close> and an array without elements count as not
  initialised, an array of one element counts by that element, and the truth value of a
  larger array raises. \<open>USE_PETSC\<close> is \<open>False\<close> (lines 51-58), so the Jacobian is the
  numpy array \<open>zeros((Nctl*3,Ndv))\<close>.
\<close>

definition not_J1 :: "ndarray2 option \<Rightarrow> error + bool" where
  "not_J1 J =
     (case J of
        None \<Rightarrow> Inr True
      | Some a \<Rightarrow>
          (if fst (fst a) * snd (fst a) = 0 then Inr True
           else if fst (fst a) * snd (fst a) = 1 then Inr (concat (snd a) = [0])
           else Inl ValueError))"

definition zeros2 :: "nat \<Rightarrow> nat \<Rightarrow> ndarray2" where
  "zeros2 r c = ((r, c), replicate r (replicate c 0))"

definition init_J1 :: "updating \<Rightarrow> error + updating" where
  "init_J1 self =
     bindE (not_J1 (J1 self)) (\<lambda>b.
       if b then
         (let Nctl = length (up_coef self);
              NdvGlobal = sum_list (map nVal (DV_listGlobal self));
              Ndv = NdvGlobal + sum_list (map local_nVal (DV_listLocal self))
          in Inr (self\<lparr>J1 := Some (zeros2 (Nctl * 3) Ndv)\<rparr>))
       else Inr self)"

text \<open>
  \<open>self.J1[:,col_counter] = imag(coef.flatten())/1e-40\<close> (line 1802): the column must
  exist, and the values must be as many as the rows or a single one.
\<close>

definition flatten :: "cvec list \<Rightarrow> complex list" where
  "flatten rows = concat (map (\<lambda>r. [fst r, fst (snd r), snd (snd r)]) rows)"

definition set_column :: "ndarray2 option \<Rightarrow> nat \<Rightarrow> real list \<Rightarrow> error + ndarray2" where
  "set_column J col vals =
     (case J of
        None \<Rightarrow> Inl TypeError
      | Some a \<Rightarrow>
          (if snd (fst a) \<le> col then Inl IndexError
           else if length vals = fst (fst a) then
             Inr (fst a, map (\<lambda>rv. (fst rv)[col := snd rv]) (zip (snd a) vals))
           else if length vals = 1 then
             Inr (fst a, map (\<lambda>row. row[col := hd vals]) (snd a))
           else Inl ValueError))"

text \<open>
  One pass of the inner loop of \<open>calcCtlDeriv\<close> (lines 1794-1810) for component \<open>jj\<close> of
  design variable \<open>idv\<close>, whose \<open>nVal\<close> was read before the inner loop: perturb, update,
  store the column, count it, and take the perturbation back.
\<close>

definition cs_step ::
  "numerics \<Rightarrow> nat \<Rightarrow> nat \<Rightarrow> nat \<Rightarrow> updating \<times> nat \<Rightarrow> error + (updating \<times> nat)" where
  "cs_step L idv n jj st =
     bindE (set_dv_value idv n jj (\<lambda>z. z + h_step) (fst st)) (\<lambda>s1.
     bindE (updateCoef L s1) (\<lambda>r.
     bindE (set_column (J1 (fst r)) (snd st) (map (\<lambda>z. Im z / (1 / 10 ^ 40)) (flatten (snd r)))) (\<lambda>J.
     bindE (set_dv_value idv n jj (\<lambda>z. z - h_step) ((fst r)\<lparr>J1 := Some J\<rparr>)) (\<lambda>s2.
       Inr (s2, snd st + 1)))))"

text \<open>\<open>calcCtlDeriv\<close> (lines 1748-1865).\<close>

definition calcCtlDeriv :: "numerics \<Rightarrow> updating \<Rightarrow> error + updating" where
  "calcCtlDeriv L self =
     bindE (init_J1 self) (\<lambda>s0.
     bindE (forE [0..<length (DV_listGlobal s0)]
              (\<lambda>idv st. if idv < length (DV_listGlobal (fst st))
                         then forE [0..<nVal (DV_listGlobal (fst st) ! idv)]
                                (cs_step L idv (nVal (DV_listGlobal (fst st) ! idv))) st
                         else Inl IndexError)
              (s0, 0)) (\<lambda>st.
       Inr (fst st)))"

text \<open>
  A stand-in for the numerical routines: a component curve is evaluated to its first
  coefficient, the axis curve to its first point, no rotation is applied, an attached
  coefficient is placed at the first axis point plus its offset times the first scale, and
  every surface normal is the unit vector along the third axis.
\<close>

definition identity_matrix :: cmat where
  "identity_matrix = ((1, 0, 0), (0, 1, 0), (0, 0, 1))"

definition rigid_numerics :: numerics where
  "rigid_numerics =
     \<lparr>spline_call = (\<lambda>c s. case spline_coef c of [] \<Rightarrow> Inl IndexError | z # zs \<Rightarrow> Inr z),
      spline_getValue = (\<lambda>c s. case spline_coef c of [] \<Rightarrow> Inl IndexError | p # ps \<Rightarrow> Inr p),
      rotxM = (\<lambda>a. identity_matrix),
      rotyM = (\<lambda>a. identity_matrix),
      rotzM = (\<lambda>a. identity_matrix),
      linalg_inv = (\<lambda>m. Inr m),
      link_point = (\<lambda>xs_s xs_t xs_coef rt scale_coef s D.
         case xs_coef of [] \<Rightarrow> D
         | p # ps \<Rightarrow> (case scale_coef of [] \<Rightarrow> vadd p D | z # zs \<Rightarrow> vadd p (vscale D z))),
      ctl_normal = (\<lambda>grid t_u t_v k_u k_v ij. (0, 0, 1))\<rparr>"

text \<open>
  One axis of two anchors with one attached coefficient at offset \<open>(0, 1, 0)\<close>, and a
  global design variable, a number, that scales the axis: its function sets the scale of
  every axis to the initial scale times the value.
\<close>

definition straight_axis :: ref_axis where
  "straight_axis =
     \<lparr>links_s = [0], links_x = [(0, 1, 0)], coef_list = [0], con_type = None,
      base_point = (0, 0, 0), base_point_s = None, base_point_D = None,
      end_point = (1, 0, 0), end_point_s = None, end_point_D = None,
      ra_x = [(0, 0, 0), (1, 0, 0)], ra_rot = [(0, 0, 0), (0, 0, 0)], ra_scale = [1, 1],
      ra_x0 = [(0, 0, 0), (1, 0, 0)], ra_rot0 = [(0, 0, 0), (0, 0, 0)], ra_scale0 = [1, 1],
      ra_xs = \<lparr>spline_s = [0, 1], spline_t = [0, 0, 1, 1], spline_coef = [(0, 0, 0), (1, 0, 0)]\<rparr>,
      ra_rotxs = \<lparr>spline_s = [0, 1], spline_t = [0, 0, 1, 1], spline_coef = [0, 0]\<rparr>,
      ra_rotys = \<lparr>spline_s = [0, 1], spline_t = [0, 0, 1, 1], spline_coef = [0, 0]\<rparr>,
      ra_rotzs = \<lparr>spline_s = [0, 1], spline_t = [0, 0, 1, 1], spline_coef = [0, 0]\<rparr>,
      ra_scales = \<lparr>spline_s = [0, 1], spline_t = [0, 0, 1, 1], spline_coef = [1, 1]\<rparr>\<rparr>"

definition scale_axes :: "dv_value \<Rightarrow> ref_axis list \<Rightarrow> error + ref_axis list" where
  "scale_axes v axes =
     (case v of
        Number z \<Rightarrow> Inr (map (\<lambda>ra. ra\<lparr>ra_scale := map (\<lambda>c. c * z) (ra_scale0 ra)\<rparr>) axes)
      | PyList zs \<Rightarrow> Inl TypeError
      | NdArray zs \<Rightarrow> Inl TypeError)"

definition one_point_surf :: ctl_surf where
  "one_point_surf =
     \<lparr>tu = [0, 1], tv = [0, 1], ku = 1, kv = 1, surf_coef = [[(0, 1, 0)]], updated = [[0]]\<rparr>"

definition scaled_geo :: updating where
  "scaled_geo =
     \<lparr>up_coef = [(0, 1, 0)], up_surfs = [one_point_surf], up_global_coef = [[(0, 0, 0)]],
      up_ref_axis = [straight_axis], ref_axis_con = [],
      DV_listGlobal = [geoDVGlobal_init (Number 2) scale_axes],
      DV_listLocal = [], J1 = None\<rparr>"

section \<open>Properties\<close>

subsection \<open>Knot-vector propagation\<close>


subsection \<open>Global indexing\<close>

text \<open>
  Claim C2. Two patches with 6 by 4 control grids, edge 1 of patch A coincident with edge
  0 of patch B and no other coincidence: discovery and indexing give one joined record,
  for that pair, six free records (seven records in all), and \<open>6*4 + 6*4 - 6 = 42\<close>
  degrees of freedom, whichever direction flag the matcher reports.
\<close>

theorem two_patch_scenario:
  "map_sum id summary (calcEdgeConnectivity getGlobalIndexEdge (shared_edge 1) [] two_patches)
     = Inr ([joined_rec 0 1 1 0 1 0], 6, 7, 6 * 4 + 6 * 4 - 6)
   \<and> map_sum id summary (calcEdgeConnectivity getGlobalIndexEdge (shared_edge (-1)) [] two_patches)
     = Inr ([joined_rec 0 1 1 0 (-1) 0], 6, 7, 6 * 4 + 6 * 4 - 6)"
  by code_simp

text \<open>
  Claim C3, as stated, fails: a corner whose two adjacent edge records both have the patch
  as slave does not stop the indexing. On the closed two-patch skin the corner (0,0) of
  patch 1 is such a corner; the run completes with 10 degrees of freedom and the only
  trace is the text printed at node 0.
\<close>

theorem both_slave_corner_not_fatal:
  "findConIndex pillow_con 1 0 = Inr (0, False) \<and> findConIndex pillow_con 1 2 = Inr (2, False)
   \<and> map_sum id dofs_and_output (setEdgeConnectivity getGlobalIndexEdge pillow)
       = Inr (10, [''Both False'', ''isurf: 1'', ''icon1,icon2: 0 2'', ''gindex: 0''])"
  by code_simp

text \<open>
  Claim C3, amended. At nodes 0, 1 and 3, when both adjacent edge records have the patch
  as slave, the corner is aliased through the first of the two records, as it is when
  only that record has the patch as slave; the result is an error only if that aliasing
  raises. Node 0 also prints \<open>Both False\<close>, the surface, the two record numbers and the
  index taken.
\<close>

theorem both_slave_corner_aliases_first_edge:
  "(findConIndex cn isurf 0 = Inr (i1, False) \<and> findConIndex cn isurf 2 = Inr (i2, False) \<longrightarrow>
      node0 G cn isurf i j st =
        map_sum id print_gindex
          (alias_edge G (cn ! i1) 0 isurf i j
             (st\<lparr>ix_stdout := ix_stdout st @ both_false_lines isurf i1 i2\<rparr>)))
   \<and> (findConIndex cn isurf 0 = Inr (k1, False) \<and> findConIndex cn isurf 3 = Inr (k2, False) \<longrightarrow>
      node1 G cn Nu isurf i' j' st' = map_sum id snd (alias_edge G (cn ! k1) (int Nu - 1) isurf i' j' st'))
   \<and> (findConIndex cn isurf 1 = Inr (m1, False) \<and> findConIndex cn isurf 3 = Inr (m2, False) \<longrightarrow>
      node3 G cn Nu Nv isurf i'' j'' st'' = map_sum id snd (alias_edge G (cn ! m1) (int Nu - 1) isurf i'' j'' st''))"
  by (auto simp: node0_def node1_def node3_def print_gindex_def Let_def split: sum.splits prod.splits)

theorem both_slave_corner_aliases_first_edge_witness:
  "findConIndex pillow_con 1 0 = Inr (0, False) \<and> findConIndex pillow_con 1 2 = Inr (2, False)
   \<and> findConIndex pillow_con 1 3 = Inr (3, False) \<and> findConIndex pillow_con 1 1 = Inr (1, False)
   \<and> node0 getGlobalIndexEdge pillow_con 1 0 0 corner_state =
        map_sum id print_gindex
          (alias_edge getGlobalIndexEdge (pillow_con ! 0) 0 1 0 0
             (corner_state\<lparr>ix_stdout := ix_stdout corner_state @ both_false_lines 1 0 2\<rparr>))
   \<and> node1 getGlobalIndexEdge pillow_con 2 1 1 0 corner_state =
        map_sum id snd (alias_edge getGlobalIndexEdge (pillow_con ! 0) (int 2 - 1) 1 1 0 corner_state)
   \<and> node3 getGlobalIndexEdge pillow_con 2 2 1 1 1 corner_state =
        map_sum id snd (alias_edge getGlobalIndexEdge (pillow_con ! 1) (int 2 - 1) 1 1 1 corner_state)
   \<and> map_sum id ix_global_coef (node0 getGlobalIndexEdge pillow_con 1 0 0 corner_state)
        = Inr [[(0, 0, 0), (1, 0, 0)], [(0, 0, 1)], [(0, 1, 0)], [(0, 1, 1)]]"
proof -
  have h0: "findConIndex pillow_con 1 0 = Inr (0, False)" by code_simp
  have h1: "findConIndex pillow_con 1 1 = Inr (1, False)" by code_simp
  have h2: "findConIndex pillow_con 1 2 = Inr (2, False)" by code_simp
  have h3: "findConIndex pillow_con 1 3 = Inr (3, False)" by code_simp
  have v: "map_sum id ix_global_coef (node0 getGlobalIndexEdge pillow_con 1 0 0 corner_state)
        = Inr [[(0, 0, 0), (1, 0, 0)], [(0, 0, 1)], [(0, 1, 0)], [(0, 1, 1)]]" by code_simp
  show ?thesis
    using both_slave_corner_aliases_first_edge
      [where cn = pillow_con and isurf = 1 and G = getGlobalIndexEdge and Nu = 2 and Nv = 2
         and ?i1.0 = 0 and ?i2.0 = 2 and i = 0 and j = 0 and st = corner_state
         and ?k1.0 = 0 and ?k2.0 = 3 and i' = 1 and j' = 0 and st' = corner_state
         and ?m1.0 = 1 and ?m2.0 = 3 and i'' = 1 and j'' = 1 and st'' = corner_state]
      h0 h1 h2 h3 v by simp
qed

subsection \<open>Replacing an existing connectivity\<close>

text \<open>
  Claim C7, as stated, fails: there is no flag and no conflict error. With a connectivity
  already set, the answer \<open>1\<close> on standard input lets \<open>calcEdgeConnectivity\<close> replace
  it (42 degrees of freedom, the line consumed), and the answer \<open>0\<close> makes both
  operations return normally with the object untouched.
\<close>

theorem overwrite_goes_through_prompt:
  "con already_connected \<noteq> None
   \<and> map_sum id dofs_and_input
        (calcEdgeConnectivity getGlobalIndexEdge (shared_edge 1) [''1''] already_connected) = Inr (42, [])
   \<and> calcEdgeConnectivity getGlobalIndexEdge (shared_edge 1) [''0''] already_connected
        = Inr (already_connected, [])
   \<and> readEdgeConnectivity getGlobalIndexEdge [header_line] [''0''] already_connected
        = Inr (already_connected, [])"
  by code_simp

text \<open>
  Claim C7, amended. When a connectivity exists, \<open>calcEdgeConnectivity\<close> and
  \<open>readEdgeConnectivity\<close> read one line from standard input. At end of input they raise
  \<open>EOFError\<close>; on the answer \<open>0\<close> they return without an error and without any
  change; on any other answer they go on exactly as they do when no connectivity exists.
\<close>

theorem overwrite_prompt:
  assumes "con self \<noteq> None"
  shows "calcEdgeConnectivity G T [] self = Inl EOFError
   \<and> calcEdgeConnectivity G T (''0'' # rest) self = Inr (self, rest)
   \<and> (ans \<noteq> ''0'' \<longrightarrow> calcEdgeConnectivity G T (ans # rest) self
          = map_sum id (with_rest rest) (calcEdgeConnectivity_run G T self))
   \<and> readEdgeConnectivity G lines [] self = Inl EOFError
   \<and> readEdgeConnectivity G lines (''0'' # rest) self = Inr (self, rest)
   \<and> (ans \<noteq> ''0'' \<longrightarrow> readEdgeConnectivity G lines (ans # rest) self
          = map_sum id (with_rest rest) (readEdgeConnectivity_run G lines self))"
  using assms
  by (auto simp: calcEdgeConnectivity_def readEdgeConnectivity_def raw_input_def with_rest_def
      split: sum.splits)

theorem overwrite_prompt_witness:
  "con already_connected \<noteq> None
   \<and> calcEdgeConnectivity getGlobalIndexEdge (shared_edge 1) [] already_connected = Inl EOFError
   \<and> calcEdgeConnectivity getGlobalIndexEdge (shared_edge 1) [''0'', ''x''] already_connected
        = Inr (already_connected, [''x''])
   \<and> ''1'' \<noteq> ''0''
   \<and> calcEdgeConnectivity getGlobalIndexEdge (shared_edge 1) [''1'', ''x''] already_connected
        = map_sum id (with_rest [''x''])
            (calcEdgeConnectivity_run getGlobalIndexEdge (shared_edge 1) already_connected)
   \<and> readEdgeConnectivity getGlobalIndexEdge [header_line] [''1'', ''x''] already_connected
        = map_sum id (with_rest [''x''])
            (readEdgeConnectivity_run getGlobalIndexEdge [header_line] already_connected)"
proof -
  have h: "con already_connected \<noteq> None"
    by (simp add: already_connected_def)
  show ?thesis
    using h overwrite_prompt [OF h, where G = getGlobalIndexEdge and T = "shared_edge 1"
        and rest = "[''x'']" and ans = "''1''" and lines = "[header_line]"]
    by simp
qed

subsection \<open>Alias completeness\<close>

lemma mset_concat_append_at:
  "k < length xss \<Longrightarrow> mset (concat (xss[k := xss ! k @ [c]])) = mset (concat xss) + {#c#}"
proof (induction xss arbitrary: k)
  case Nil
  then show ?case by simp
next
  case (Cons xs xss)
  then show ?case by (cases k) simp_all
qed

lemma set_globalCtlIndex_dims:
  "set_globalCtlIndex isurf i j v ss = Inr ss' \<Longrightarrow> map dims ss' = map dims ss"
  by (auto simp: set_globalCtlIndex_def dims_def map_update list_update_same_conv split: if_splits)

lemma new_master_step:
  assumes "new_master isurf i j st = Inr st'"
  shows "aliases st' = aliases st + {#(isurf, i, j)#}"
    and "counter st' = counter st + 1"
    and "length (ix_global_coef st') = length (ix_global_coef st) + 1"
    and "map dims (ix_surfs st') = map dims (ix_surfs st)"
  using assms
  by (auto simp: new_master_def aliases_def split: sum.splits dest: set_globalCtlIndex_dims)

lemma alias_via_step:
  assumes "alias_via G pid edg t d isurf i j st = Inr (g, st')"
  shows "aliases st' = aliases st + {#(isurf, i, j)#}"
    and "counter st' = counter st"
    and "length (ix_global_coef st') = length (ix_global_coef st)"
    and "map dims (ix_surfs st') = map dims (ix_surfs st)"
  using assms
  by (auto simp: alias_via_def aliases_def py_index_def Let_def mset_concat_append_at
      split: sum.splits if_splits dest: set_globalCtlIndex_dims)

lemma new_master_grow: "new_master isurf i j st = Inr st' \<Longrightarrow> grow st st' (isurf, i, j)"
  by (simp add: grow_def new_master_step)

lemma alias_via_grow: "alias_via G pid edg t d isurf i j st = Inr (g, st') \<Longrightarrow> grow st st' (isurf, i, j)"
  by (simp add: grow_def alias_via_step)

lemma grow_patchID [simp]: "grow (st\<lparr>patchID := p\<rparr>) st' c = grow st st' c"
  by (simp add: grow_def aliases_def)

lemma grow_stdout [simp]:
  "grow (st\<lparr>ix_stdout := p\<rparr>) st' c = grow st st' c"
  "grow st (st'\<lparr>ix_stdout := p\<rparr>) c = grow st st' c"
  by (simp_all add: grow_def aliases_def)

lemma alias_edge_grow: "alias_edge G c t isurf i j st = Inr (g, st') \<Longrightarrow> grow st st' (isurf, i, j)"
  by (auto simp: alias_edge_def dest: alias_via_grow)

lemma alias_edge_stale_grow:
  "alias_edge_stale G c t isurf i j st = Inr (g, st') \<Longrightarrow> grow st st' (isurf, i, j)"
  by (auto simp: alias_edge_stale_def split: option.splits dest: alias_via_grow)

lemma edge_cell_grow: "edge_cell G cn edg t isurf i j st = Inr st' \<Longrightarrow> grow st st' (isurf, i, j)"
  by (auto simp: edge_cell_def split: sum.splits prod.splits if_splits
      dest: new_master_grow alias_edge_grow)

lemma node0_grow: "node0 G cn isurf i j st = Inr st' \<Longrightarrow> grow st st' (isurf, i, j)"
  by (auto simp: node0_def Let_def split: sum.splits prod.splits if_splits
      dest!: new_master_grow alias_edge_grow)

lemma node1_grow: "node1 G cn Nu isurf i j st = Inr st' \<Longrightarrow> grow st st' (isurf, i, j)"
  by (auto simp: node1_def split: sum.splits prod.splits if_splits
      dest!: new_master_grow alias_edge_grow)

lemma node2_grow: "node2 G cn Nv isurf i j st = Inr st' \<Longrightarrow> grow st st' (isurf, i, j)"
  by (auto simp: node2_def split: sum.splits prod.splits if_splits
      dest!: new_master_grow alias_edge_grow alias_edge_stale_grow)

lemma node3_grow: "node3 G cn Nu Nv isurf i j st = Inr st' \<Longrightarrow> grow st st' (isurf, i, j)"
  by (auto simp: node3_def split: sum.splits prod.splits if_splits
      dest!: new_master_grow alias_edge_grow)

lemma set_cell_grow:
  assumes "set_cell G cn Nu Nv isurf i j st = Inr st'" and "i < Nu" and "j < Nv"
  shows "grow st st' (isurf, i, j)"
proof -
  have cover: "(0 < i \<and> int i < int Nu - 1 \<or> i = 0 \<or> int i = int Nu - 1)
             \<and> (0 < j \<and> int j < int Nv - 1 \<or> j = 0 \<or> int j = int Nv - 1)"
    using assms(2,3) by auto
  from assms(1) cover show ?thesis
    unfolding set_cell_def
    by (auto split: if_splits
        dest: new_master_grow edge_cell_grow node0_grow node1_grow node2_grow node3_grow)
qed

lemma grow_grows: "grow st st' c = grows st st' [c]"
  by (simp add: grow_def grows_def)

lemma grows_refl: "grows st st []"
  by (simp add: grows_def)

lemma grows_trans: "grows a b xs \<Longrightarrow> grows b c ys \<Longrightarrow> grows a c (xs @ ys)"
  by (simp add: grows_def)

lemma forE_grows:
  assumes "\<And>x s s'. x \<in> set xs \<Longrightarrow> map dims (ix_surfs s) = D \<Longrightarrow> body x s = Inr s' \<Longrightarrow> grows s s' (f x)"
    and "forE xs body s = Inr s'"
    and "map dims (ix_surfs s) = D"
  shows "grows s s' (concat (map f xs))"
  using assms
proof (induction xs arbitrary: s)
  case Nil
  then show ?case by (simp add: grows_refl)
next
  case (Cons x xs)
  from Cons.prems(2) obtain s1 where b: "body x s = Inr s1" and r: "forE xs body s1 = Inr s'"
    by (auto split: sum.splits)
  from Cons.prems(1) [OF _ Cons.prems(3) b] have g1: "grows s s1 (f x)" by simp
  then have d1: "map dims (ix_surfs s1) = D" using Cons.prems(3) by (simp add: grows_def)
  have "grows s1 s' (concat (map f xs))"
    by (rule Cons.IH [OF _ r d1]) (auto intro: Cons.prems(1))
  with g1 show ?case by (simp add: grows_trans)
qed

lemma row_grows:
  assumes "forE [0..<Nv] (set_cell G cn Nu Nv isurf i) st = Inr st'" and "i < Nu"
  shows "grows st st' (map (\<lambda>j. (isurf, i, j)) [0..<Nv])"
proof -
  have "grows st st' (concat (map (\<lambda>j. [(isurf, i, j)]) [0..<Nv]))"
  proof (rule forE_grows [OF _ assms(1) refl])
    fix x s s'
    assume "x \<in> set [0..<Nv]" and "set_cell G cn Nu Nv isurf i x s = Inr s'"
    then show "grows s s' [(isurf, i, x)]"
      using set_cell_grow [of G cn Nu Nv isurf i x s s'] assms(2) by (simp add: grow_grows)
  qed
  moreover have "concat (map (\<lambda>j. [(isurf, i, j)]) [0..<Nv]) = map (\<lambda>j. (isurf, i, j)) [0..<Nv]"
    by (induction Nv) simp_all
  ultimately show ?thesis by simp
qed

lemma grows_master_bool [simp]:
  "grows (st\<lparr>master_bool_array := m\<rparr>) st' cs = grows st st' cs"
  by (simp add: grows_def aliases_def)

lemma grows_coef_shapes [simp]:
  "grows st (st'\<lparr>ix_coef_shapes := m\<rparr>) cs = grows st st' cs"
  by (simp add: grows_def aliases_def)

lemma index_surface_grows:
  assumes "index_surface G cn isurf st = Inr st'"
  shows "grows st st' (patch_cells isurf (dims (ix_surfs st ! isurf)))"
proof -
  let ?Nu = "Nctlu (ix_surfs st ! isurf)" and ?Nv = "Nctlv (ix_surfs st ! isurf)"
  from assms obtain st1 where
    loop: "forE [0..<?Nu] (\<lambda>i. forE [0..<?Nv] (set_cell G cn ?Nu ?Nv isurf i))
             (st\<lparr>master_bool_array := []\<rparr>) = Inr st1"
    and fin: "st' = st1\<lparr>ix_coef_shapes := ix_coef_shapes st1 @ [free_shape ?Nu ?Nv (master_bool_array st1)]\<rparr>"
    by (auto simp: index_surface_def Let_def split: sum.splits if_splits)
  have "grows (st\<lparr>master_bool_array := []\<rparr>) st1
          (concat (map (\<lambda>i. map (\<lambda>j. (isurf, i, j)) [0..<?Nv]) [0..<?Nu]))"
  proof (rule forE_grows [OF _ loop refl])
    fix x s s'
    assume "x \<in> set [0..<?Nu]" and "forE [0..<?Nv] (set_cell G cn ?Nu ?Nv isurf x) s = Inr s'"
    then show "grows s s' (map (\<lambda>j. (isurf, x, j)) [0..<?Nv])"
      by (intro row_grows) simp_all
  qed
  then show ?thesis
    by (simp add: fin patch_cells_def dims_def)
qed

lemma surfaces_grow:
  assumes "forE [0..<length (ix_surfs st)] (index_surface G cn) st = Inr st'"
  shows "grows st st' (all_cells (map dims (ix_surfs st)))"
proof -
  let ?D = "map dims (ix_surfs st)"
  have "grows st st' (concat (map (\<lambda>p. patch_cells p (?D ! p)) [0..<length (ix_surfs st)]))"
  proof (rule forE_grows [OF _ assms refl])
    fix x s s'
    assume x: "x \<in> set [0..<length (ix_surfs st)]" and d: "map dims (ix_surfs s) = ?D"
      and b: "index_surface G cn x s = Inr s'"
    from d have "length (ix_surfs s) = length (ix_surfs st)"
      by (metis length_map)
    with x d have "dims (ix_surfs s ! x) = ?D ! x"
      by (metis atLeastLessThan_iff nth_map set_upt)
    with index_surface_grows [OF b] show "grows s s' (patch_cells x (?D ! x))" by simp
  qed
  then show ?thesis by (simp add: all_cells_def)
qed

lemma distinct_concat_upt:
  assumes "\<And>k. k < n \<Longrightarrow> distinct (f k)"
    and "\<And>k x. k < n \<Longrightarrow> x \<in> set (f k) \<Longrightarrow> tag x = k"
  shows "distinct (concat (map f [0..<n]))"
  using assms
proof (induction n)
  case 0
  then show ?case by simp
next
  case (Suc n)
  have "distinct (concat (map f [0..<n]))"
    by (rule Suc.IH) (auto intro: Suc.prems)
  moreover have "distinct (f n)" by (simp add: Suc.prems)
  moreover have "set (concat (map f [0..<n])) \<inter> set (f n) = {}"
  proof (rule ccontr)
    assume "set (concat (map f [0..<n])) \<inter> set (f n) \<noteq> {}"
    then obtain x k where "k < n" "x \<in> set (f k)" "x \<in> set (f n)" by auto
    then have "tag x = k" "tag x = n" using Suc.prems(2) by auto
    with \<open>k < n\<close> show False by simp
  qed
  ultimately show ?case by simp
qed

lemma set_patch_cells: "set (patch_cells p d) = {(q, i, j). q = p \<and> i < fst d \<and> j < snd d}"
  by (auto simp: patch_cells_def)

lemma distinct_patch_cells: "distinct (patch_cells p d)"
  unfolding patch_cells_def
  by (rule distinct_concat_upt [where tag = "\<lambda>x. fst (snd x)"]) (auto simp: distinct_map inj_on_def)

lemma distinct_all_cells: "distinct (all_cells D)"
  unfolding all_cells_def
  by (rule distinct_concat_upt [where tag = fst]) (auto simp: distinct_patch_cells set_patch_cells)

lemma set_all_cells:
  "set (all_cells D) = {(p, i, j). p < length D \<and> i < fst (D ! p) \<and> j < snd (D ! p)}"
  by (auto simp: all_cells_def set_patch_cells)

lemma one_holder:
  assumes "distinct (concat xss)" and "c \<in> set (concat xss)"
  shows "holders xss c = 1"
  using assms
proof (induction xss)
  case Nil
  then show ?case by simp
next
  case (Cons xs xss)
  show ?case
  proof (cases "c \<in> set xs")
    case True
    with Cons.prems(1) have "c \<notin> set (concat xss)" by auto
    then have "filter (\<lambda>entry. List.member entry c) xss = []"
      by (auto simp: filter_empty_conv)
    with True show ?thesis by (simp add: holders_def)
  next
    case False
    with Cons.prems have "distinct (concat xss)" "c \<in> set (concat xss)" by auto
    from Cons.IH [OF this] False show ?thesis by (simp add: holders_def)
  qed
qed

text \<open>
  Claim C1. When \<open>_setEdgeConnectivity\<close> completes, every control-point cell \<open>(i,j)\<close> of
  every patch is contained in exactly one entry of \<open>global_coef\<close>, and \<open>Ncoef\<close> is the
  number of entries, each of which was opened by one master allocation. This holds for
  any \<open>getGlobalIndexEdge\<close>.
\<close>

theorem alias_completeness:
  assumes "setEdgeConnectivity G self = Inr self'"
  shows "(\<forall>p < length (surfs self). \<forall>i < Nctlu (surfs self ! p). \<forall>j < Nctlv (surfs self ! p).
            holders (global_coef self') (p, i, j) = 1)
         \<and> Ncoef self' = length (global_coef self')"
proof -
  let ?st0 = "\<lparr>ix_surfs = surfs self, ix_global_coef = [], counter = 0, patchID = None,
               master_bool_array = [], ix_coef_shapes = [], ix_stdout = stdout self\<rparr>"
  from assms obtain cn st where
    run: "forE [0..<length (surfs self)] (index_surface G cn) ?st0 = Inr st"
    and res: "global_coef self' = ix_global_coef st" "Ncoef self' = counter st"
    by (auto simp: setEdgeConnectivity_def split: option.splits sum.splits)
  have "grows ?st0 st (all_cells (map dims (ix_surfs ?st0)))"
    by (rule surfaces_grow [where G = G and cn = cn]) (simp add: run)
  then have al: "mset (concat (ix_global_coef st)) = mset (all_cells (map dims (surfs self)))"
    and cnt: "counter st = length (ix_global_coef st)"
    by (simp_all add: grows_def aliases_def)
  from al have dist: "distinct (concat (ix_global_coef st))"
    using distinct_all_cells mset_eq_imp_distinct_iff by blast
  from al have mem: "set (concat (ix_global_coef st)) = set (all_cells (map dims (surfs self)))"
    by (rule mset_eq_setD)
  show ?thesis
  proof (intro conjI allI impI)
    fix p i j
    assume "p < length (surfs self)" "i < Nctlu (surfs self ! p)" "j < Nctlv (surfs self ! p)"
    then have "(p, i, j) \<in> set (all_cells (map dims (surfs self)))"
      by (simp add: set_all_cells dims_def)
    then have "(p, i, j) \<in> set (concat (ix_global_coef st))"
      by (simp only: mem)
    from one_holder [OF dist this]
    show "holders (global_coef self') (p, i, j) = 1"
      by (simp add: res)
  next
    show "Ncoef self' = length (global_coef self')" by (simp add: res cnt)
  qed
qed

theorem alias_completeness_witness:
  "setEdgeConnectivity getGlobalIndexEdge pillow = Inr pillow_indexed
   \<and> holders (global_coef pillow_indexed) (1, 2, 0) = 1
   \<and> holders (global_coef pillow_indexed) (0, 1, 1) = 1
   \<and> Ncoef pillow_indexed = length (global_coef pillow_indexed)"
proof -
  have h: "setEdgeConnectivity getGlobalIndexEdge pillow = Inr pillow_indexed"
    by code_simp
  have d: "1 < length (surfs pillow)" "2 < Nctlu (surfs pillow ! 1)" "0 < Nctlv (surfs pillow ! 1)"
    "0 < length (surfs pillow)" "1 < Nctlu (surfs pillow ! 0)" "1 < Nctlv (surfs pillow ! 0)"
    by (simp_all add: pillow_def fresh_surf_def)
  show ?thesis
    using alias_completeness [OF h] h d by blast
qed

subsection \<open>The connectivity file read back\<close>

lemma of_char_digit_char: "d < 10 \<Longrightarrow> (of_char (digit_char d) :: nat) = 48 + d"
  by (simp add: digit_char_def)

lemma is_digit_digit_char: "d < 10 \<Longrightarrow> is_digit (digit_char d)"
  by (simp add: is_digit_def of_char_digit_char)

lemma dec_nat_digits: "list_all is_digit (dec_nat n) \<and> dec_nat n \<noteq> []"
proof (induction n rule: dec_nat.induct)
  case (1 n)
  show ?case
  proof (cases "n < 10")
    case True
    then show ?thesis by (subst dec_nat.simps, subst dec_nat.simps) (simp add: is_digit_digit_char)
  next
    case False
    with 1 show ?thesis by (subst dec_nat.simps, subst dec_nat.simps) (simp add: is_digit_digit_char)
  qed
qed

lemma digits_value_dec_nat: "digits_value (dec_nat n) = n"
proof (induction n rule: dec_nat.induct)
  case (1 n)
  show ?case
  proof (cases "n < 10")
    case True
    then show ?thesis by (subst dec_nat.simps) (simp add: digits_value_def of_char_digit_char)
  next
    case False
    with 1 have "digits_value (dec_nat (n div 10)) = n div 10" by simp
    then show ?thesis using False
      by (subst dec_nat.simps) (simp add: digits_value_def of_char_digit_char)
  qed
qed

lemma parse_digits_dec_nat: "parse_digits (dec_nat n) = Inr n"
  by (simp add: parse_digits_def dec_nat_digits digits_value_dec_nat)

lemma digit_not_sign: "is_digit c \<Longrightarrow> c \<noteq> CHR ''-'' \<and> c \<noteq> CHR ''+''"
  by (auto simp: is_digit_def)

lemma digit_not_space_bar: "is_digit c \<Longrightarrow> \<not> is_space c \<and> c \<noteq> CHR ''|''"
  by (auto simp: is_digit_def is_space_def)

lemma py_int_dec_int: "py_int (dec_int i) = Inr i"
proof (cases "i < 0")
  case True
  then show ?thesis by (simp add: py_int_def dec_int_def parse_digits_dec_nat)
next
  case False
  obtain c cs where tok: "dec_nat (nat i) = c # cs"
    using dec_nat_digits [of "nat i"] by (cases "dec_nat (nat i)") auto
  with dec_nat_digits [of "nat i"] have "is_digit c" by simp
  then have "c \<noteq> CHR ''-''" "c \<noteq> CHR ''+''" using digit_not_sign by auto
  moreover have "parse_digits (c # cs) = Inr (nat i)"
    using parse_digits_dec_nat [of "nat i"] tok by simp
  ultimately show ?thesis using False tok by (simp add: py_int_def dec_int_def)
qed

lemma is_token_dec_int: "is_token (dec_int i)"
proof -
  have "list_all (\<lambda>c. \<not> is_space c \<and> c \<noteq> CHR ''|'') (dec_nat n)" for n
    using dec_nat_digits [of n] by (auto simp: list_all_iff digit_not_space_bar)
  moreover have "\<not> is_space CHR ''-''" by (simp add: is_space_def)
  ultimately show ?thesis using dec_nat_digits by (simp add: is_token_def dec_int_def)
qed

lemma split_from_token:
  "list_all (\<lambda>c. \<not> is_space c \<and> c \<noteq> CHR ''|'') tok \<Longrightarrow>
   split_from cur (tok @ rest) = split_from (cur @ tok) rest"
  by (induction tok arbitrary: cur) simp_all

lemma split_from_blanks: "split_from [] (replicate k CHR '' '' @ rest) = split_from [] rest"
  by (induction k) (simp_all add: is_space_def)

lemma replace_bars_token:
  "list_all (\<lambda>c. \<not> is_space c \<and> c \<noteq> CHR ''|'') tok \<Longrightarrow> replace_bars tok = tok"
  by (induction tok) (simp_all add: replace_bars_def)

lemma replace_bars_fmt3d: "replace_bars (fmt3d i @ rest) = fmt3d i @ replace_bars rest"
  using is_token_dec_int [of i] replace_bars_token [of "dec_int i"]
  by (simp add: fmt3d_def replace_bars_def is_token_def)

lemma split_from_fmt3d:
  "is_space c \<Longrightarrow> split_from [] (fmt3d i @ c # rest) = dec_int i # split_from [] rest"
  using is_token_dec_int [of i] split_from_token [of "dec_int i" "[]" "c # rest"]
  by (simp add: fmt3d_def split_from_blanks is_token_def)

lemma split_fmt_row:
  "split (replace_bars (fmt_row a0 a1 a2 a3 a4 a5 a6 a7 a8 a9 a10)) =
     [dec_int a0, dec_int a1, dec_int a2, dec_int a3, dec_int a4, dec_int a5, dec_int a6,
      dec_int a7, dec_int a8, dec_int a9, dec_int a10]"
proof -
  have sp: "is_space CHR '' ''" "is_space (CHR 0x0A)" by (simp_all add: is_space_def)
  have rb: "replace_bars (c # cs) = (if c = CHR ''|'' then CHR '' '' else c) # replace_bars cs"
    "replace_bars [] = []" for c cs
    by (simp_all add: replace_bars_def)
  show ?thesis
    unfolding split_def fmt_row_def
    by (simp add: replace_bars_fmt3d rb split_from_fmt3d sp)
qed

lemma edge_init_fmt_row:
  "edge_init (replace_bars (fmt_row a0 a1 a2 a3 a4 a5 a6 a7 a8 a9 a10)) =
     Inr (if a3 = 0
          then \<lparr>type = a3, f1 = a1, e1 = a2, f2 = -1, e2 = -1, cont = -1, dir = 1,
                dg = a7, dof = a4, Nctl = a8\<rparr>
          else \<lparr>type = a3, f1 = a1, e1 = a2, f2 = a9, e2 = a10, cont = a5, dir = a6,
                dg = a7, dof = 7, Nctl = a8\<rparr>)"
  by (simp add: edge_init_def split_fmt_row int_at_def bindE_def py_int_dec_int Let_def)

lemma edge_init_canonical: "edge_init str = Inr e \<Longrightarrow> canonical e"
  by (auto simp: edge_init_def bindE_def Let_def canonical_def split: sum.splits if_splits)

lemma read_write_edge: "canonical e \<Longrightarrow> edge_init (replace_bars (write_info i e)) = Inr e"
  by (cases e) (auto simp: write_info_def edge_init_fmt_row canonical_def)

lemma read_write_rows:
  "list_all canonical cn \<Longrightarrow>
   mapE edge_init (map replace_bars (map (\<lambda>ie. write_info (fst ie) (snd ie)) (enumerate k cn))) = Inr cn"
  by (induction cn arbitrary: k) (simp_all add: read_write_edge)

lemma read_written_file:
  assumes "con self = Some cn" and "list_all canonical cn"
  shows "\<exists>lines. writeEdgeConnectivity self = Inr lines \<and> read_records lines = Inr cn"
  using assms read_write_rows [of cn 0]
  by (simp add: writeEdgeConnectivity_def read_records_def del: map_map)

lemma map_shape_length: "map shape A = map shape B \<Longrightarrow> length A = length B"
  by (metis length_map)

lemma map_shape_nth: "map shape A = map shape B \<Longrightarrow> q < length A \<Longrightarrow> shape (A ! q) = shape (B ! q)"
  by (metis length_map nth_map)

lemma map_update_same:
  assumes "f y = f (xs ! i)"
  shows "map f (xs[i := y]) = map f xs"
proof (rule nth_equalityI)
  show "length (map f (xs[i := y])) = length (map f xs)" by simp
next
  fix k assume "k < length (map f (xs[i := y]))"
  then have k: "k < length xs" by simp
  note eq = assms
  show "map f (xs[i := y]) ! k = map f xs ! k"
  proof (cases "k = i")
    case True
    with k eq show ?thesis by simp
  next
    case False
    with k show ?thesis by simp
  qed
qed

lemma map_length_update: "map length (g[i := (g ! i)[j := v]]) = map length g"
  by (rule map_update_same) simp

lemma set_globalCtlIndex_agree:
  assumes "agree S p done A B" and "set_globalCtlIndex p i j v A = Inr A'"
  shows "\<exists>B'. set_globalCtlIndex p i j v B = Inr B' \<and> agree S p ((i, j) # done) A' B'"
proof -
  from assms(1) have shA: "map shape A = S" and shB: "map shape B = S" and tk: "take p A = take p B"
    and dn: "list_all (\<lambda>c. globalCtlIndex (A ! p) ! fst c ! snd c = globalCtlIndex (B ! p) ! fst c ! snd c) done"
    by (simp_all add: agree_def)
  from assms(2) have inA: "p < length A" "i < length (globalCtlIndex (A ! p))"
    "j < length (globalCtlIndex (A ! p) ! i)"
    and A': "A' = A[p := (A ! p)\<lparr>globalCtlIndex := (globalCtlIndex (A ! p))[i := (globalCtlIndex (A ! p) ! i)[j := v]]\<rparr>]"
    by (auto simp: set_globalCtlIndex_def split: if_splits)
  from shA shB have sh: "map shape A = map shape B" by simp
  have len: "length A = length B" using sh by (rule map_shape_length)
  have shp: "shape (A ! p) = shape (B ! p)" using sh inA(1) by (rule map_shape_nth)
  then have ml: "map length (globalCtlIndex (A ! p)) = map length (globalCtlIndex (B ! p))"
    and nu: "Nctlu (A ! p) = Nctlu (B ! p)" and nv: "Nctlv (A ! p) = Nctlv (B ! p)"
    by (simp_all add: shape_def)
  from ml have l1: "length (globalCtlIndex (A ! p)) = length (globalCtlIndex (B ! p))"
    by (metis length_map)
  from ml inA(2) have l2: "length (globalCtlIndex (A ! p) ! i) = length (globalCtlIndex (B ! p) ! i)"
    by (metis length_map nth_map)
  let ?B' = "B[p := (B ! p)\<lparr>globalCtlIndex := (globalCtlIndex (B ! p))[i := (globalCtlIndex (B ! p) ! i)[j := v]]\<rparr>]"
  have run: "set_globalCtlIndex p i j v B = Inr ?B'"
    using inA len l1 l2 by (simp add: set_globalCtlIndex_def)
  have "shape ((A ! p)\<lparr>globalCtlIndex := (globalCtlIndex (A ! p))[i := (globalCtlIndex (A ! p) ! i)[j := v]]\<rparr>)
          = shape (A ! p)"
    by (simp add: shape_def map_length_update)
  then have shA': "map shape A' = S"
    using shA by (simp add: A' map_update_same)
  have "shape ((B ! p)\<lparr>globalCtlIndex := (globalCtlIndex (B ! p))[i := (globalCtlIndex (B ! p) ! i)[j := v]]\<rparr>)
          = shape (B ! p)"
    by (simp add: shape_def map_length_update)
  then have shB': "map shape ?B' = S"
    using shB by (simp add: map_update_same)
  have tk': "take p A' = take p ?B'" using tk by (simp add: A')
  have new: "globalCtlIndex (A' ! p) ! i ! j = globalCtlIndex (?B' ! p) ! i ! j"
    using inA len l1 l2 by (simp add: A')
  have old: "list_all (\<lambda>c. globalCtlIndex (A' ! p) ! fst c ! snd c = globalCtlIndex (?B' ! p) ! fst c ! snd c) done"
    using dn inA len l1 l2
    by (auto simp: A' list_all_iff nth_list_update)
  show ?thesis using run shA' shB' tk' new old by (simp add: agree_def)
qed

lemma sim_stdout [simp]:
  "sim S p done (a\<lparr>ix_stdout := x\<rparr>) b = sim S p done a b"
  "sim S p done a (b\<lparr>ix_stdout := y\<rparr>) = sim S p done a b"
  by (simp_all add: sim_def core_def pid_below_def)

lemma new_master_sim:
  assumes "sim S p done a b" and "new_master p i j a = Inr a'"
  shows "\<exists>b'. new_master p i j b = Inr b' \<and> sim S p ((i, j) # done) a' b'"
proof -
  from assms(2) obtain A' where w: "set_globalCtlIndex p i j (int (counter a)) (ix_surfs a) = Inr A'"
    and a': "a' = a\<lparr>ix_surfs := A', ix_global_coef := ix_global_coef a @ [[(p, i, j)]],
                     counter := counter a + 1, master_bool_array := (i, j) # master_bool_array a\<rparr>"
    by (auto simp: new_master_def split: sum.splits)
  from assms(1) have c: "core a = core b" and pb: "pid_below p a"
    and ag: "agree S p done (ix_surfs a) (ix_surfs b)"
    by (simp_all add: sim_def)
  from set_globalCtlIndex_agree [OF ag w] obtain B' where
    wb: "set_globalCtlIndex p i j (int (counter a)) (ix_surfs b) = Inr B'"
    and ag': "agree S p ((i, j) # done) A' B'" by blast
  from c have cnt: "counter b = counter a" by (simp add: core_def)
  show ?thesis
    using wb ag' c pb cnt
    by (simp add: new_master_def a' sim_def core_def pid_below_def)
qed

lemma alias_via_sim:
  assumes "sim S p done a b" and "alias_via G pid edg t d p i j a = Inr (g, a')"
    and "0 \<le> pid" and "pid < int p"
  shows "\<exists>b'. alias_via G pid edg t d p i j b = Inr (g, b') \<and> sim S p ((i, j) # done) a' b'"
proof -
  from assms(1) have c: "core a = core b" and pb: "pid_below p a"
    and ag: "agree S p done (ix_surfs a) (ix_surfs b)"
    by (simp_all add: sim_def)
  from ag have "map shape (ix_surfs a) = map shape (ix_surfs b)" by (simp add: agree_def)
  then have len: "length (ix_surfs a) = length (ix_surfs b)" by (rule map_shape_length)
  obtain q where q: "py_index (length (ix_surfs a)) pid = Inr q"
    using assms(2) by (cases "py_index (length (ix_surfs a)) pid") (simp_all add: alias_via_def)
  obtain g' where gq': "G (ix_surfs a ! q) edg t d = Inr g'"
    using assms(2) q by (cases "G (ix_surfs a ! q) edg t d") (simp_all add: alias_via_def)
  obtain k where k': "py_index (length (ix_global_coef a)) g' = Inr k"
    using assms(2) q gq'
    by (cases "py_index (length (ix_global_coef a)) g'") (simp_all add: alias_via_def)
  obtain A' where w': "set_globalCtlIndex p i j g' (ix_surfs a) = Inr A'"
    using assms(2) q gq' k'
    by (cases "set_globalCtlIndex p i j g' (ix_surfs a)") (simp_all add: alias_via_def)
  from assms(2) q gq' k' w' have gg: "g' = g"
    and a': "a' = a\<lparr>ix_surfs := A',
                ix_global_coef := (ix_global_coef a)[k := ix_global_coef a ! k @ [(p, i, j)]]\<rparr>"
    by (simp_all add: alias_via_def)
  note gq = gq' [unfolded gg] and k = k' [unfolded gg] and w = w' [unfolded gg]
  from q assms(3,4) have qp: "q = nat pid" "q < p"
    by (auto simp: py_index_def Let_def split: if_splits)
  from ag have tk: "take p (ix_surfs a) = take p (ix_surfs b)"
    by (simp add: agree_def)
  have "take p (ix_surfs a) ! q = ix_surfs a ! q" "take p (ix_surfs b) ! q = ix_surfs b ! q"
    using qp(2) by simp_all
  with tk have same: "ix_surfs a ! q = ix_surfs b ! q" by simp
  from set_globalCtlIndex_agree [OF ag w] obtain B' where
    wb: "set_globalCtlIndex p i j g (ix_surfs b) = Inr B'"
    and ag': "agree S p ((i, j) # done) A' B'" by blast
  from c have gc: "ix_global_coef b = ix_global_coef a" by (simp add: core_def)
  let ?b' = "b\<lparr>ix_surfs := B',
                ix_global_coef := (ix_global_coef b)[k := ix_global_coef b ! k @ [(p, i, j)]]\<rparr>"
  have "alias_via G pid edg t d p i j b = Inr (g, ?b')"
    by (simp add: alias_via_def len [symmetric] same [symmetric] gc q gq k wb)
  moreover have "sim S p ((i, j) # done) a' ?b'"
    using c pb ag' by (simp add: a' sim_def core_def pid_below_def)
  ultimately show ?thesis by blast
qed

lemma alias_edge_sim:
  assumes "sim S p done a b" and "alias_edge G c t p i j a = Inr (g, a')"
    and "0 \<le> f1 c" and "f1 c < int p"
  shows "\<exists>b'. alias_edge G c t p i j b = Inr (g, b') \<and> sim S p ((i, j) # done) a' b'"
proof -
  from assms(1,3,4) have "sim S p done (a\<lparr>patchID := Some (f1 c)\<rparr>) (b\<lparr>patchID := Some (f1 c)\<rparr>)"
    by (simp add: sim_def core_def pid_below_def)
  from alias_via_sim [OF this _ assms(3,4)] assms(2) show ?thesis
    by (simp add: alias_edge_def)
qed

lemma alias_edge_stale_sim:
  assumes "sim S p done a b" and "alias_edge_stale G c t p i j a = Inr (g, a')"
  shows "\<exists>b'. alias_edge_stale G c t p i j b = Inr (g, b') \<and> sim S p ((i, j) # done) a' b'"
proof -
  from assms(2) obtain pid where pid: "patchID a = Some pid"
    and run: "alias_via G pid (e1 c) t (dir c) p i j a = Inr (g, a')"
    by (auto simp: alias_edge_stale_def split: option.splits)
  from assms(1) pid have b: "patchID b = Some pid" and rng: "0 \<le> pid" "pid < int p"
    by (simp_all add: sim_def core_def pid_below_def)
  from alias_via_sim [OF assms(1) run rng] b show ?thesis
    by (simp add: alias_edge_stale_def)
qed

lemma findConIndex_from_slave:
  "findConIndex_from k cn isurf edg = Inr (icon, False) \<Longrightarrow>
   k \<le> icon \<and> icon - k < length cn \<and> f2 (cn ! (icon - k)) = int isurf"
proof (induction cn arbitrary: k)
  case Nil
  then show ?case by simp
next
  case (Cons c cn)
  show ?case
  proof (cases "f1 c = int isurf \<and> e1 c = edg")
    case True
    with Cons.prems show ?thesis by (auto split: if_splits)
  next
    case notmaster: False
    show ?thesis
    proof (cases "f2 c = int isurf \<and> e2 c = edg")
      case True
      with notmaster Cons.prems have "icon = k" by (auto split: if_splits)
      with True show ?thesis by simp
    next
      case False
      with notmaster Cons.prems
      have later: "findConIndex_from (Suc k) cn isurf edg = Inr (icon, False)"
        by (auto split: if_splits)
      from Cons.IH [OF later] have ih: "Suc k \<le> icon" "icon - Suc k < length cn"
        "f2 (cn ! (icon - Suc k)) = int isurf" by simp_all
      from ih(1) have "icon - k = Suc (icon - Suc k)" by arith
      with ih show ?thesis by simp
    qed
  qed
qed

lemma slave_master_below:
  assumes "findConIndex cn isurf edg = Inr (icon, False)" and "master_first cn"
  shows "0 \<le> f1 (cn ! icon) \<and> f1 (cn ! icon) < int isurf"
proof -
  from findConIndex_from_slave [of 0 cn isurf edg icon] assms(1)
  have "icon < length cn" "f2 (cn ! icon) = int isurf" by (simp_all add: findConIndex_def)
  with assms(2) show ?thesis
    by (auto simp: master_first_def list_all_length)
qed

lemma sim_cong:
  assumes "core x = core a" "ix_surfs x = ix_surfs a" "core y = core b" "ix_surfs y = ix_surfs b"
  shows "sim S p dn x y = sim S p dn a b"
proof -
  from assms(1) have "patchID x = patchID a" by (simp add: core_def)
  then have "pid_below p x = pid_below p a" by (simp add: pid_below_def)
  with assms show ?thesis by (simp add: sim_def)
qed

lemma new_master_follows:
  "sim S p done a b \<Longrightarrow> follows S p ((i, j) # done) (new_master p i j a) (new_master p i j b)"
  using new_master_sim [of S p "done" a b i j]
  by (auto simp: follows_def split: sum.splits)

lemma alias_edge_follows:
  assumes "sim S p done a b" and "0 \<le> f1 c" and "f1 c < int p"
    and "\<And>g s. core (h g s) = core s \<and> ix_surfs (h g s) = ix_surfs s"
    and "\<And>g s. core (h' g s) = core s \<and> ix_surfs (h' g s) = ix_surfs s"
  shows "follows S p ((i, j) # done)
           (case alias_edge G c t p i j a of Inl e \<Rightarrow> Inl e | Inr (g, st2) \<Rightarrow> Inr (h g st2))
           (case alias_edge G c t p i j b of Inl e \<Rightarrow> Inl e | Inr (g, st2) \<Rightarrow> Inr (h' g st2))"
proof (cases "alias_edge G c t p i j a")
  case (Inl e)
  then show ?thesis by (simp add: follows_def)
next
  case (Inr r)
  obtain g a' where r: "r = (g, a')" by (cases r)
  from alias_edge_sim [OF assms(1) Inr [unfolded r] assms(2,3)] obtain b' where
    b: "alias_edge G c t p i j b = Inr (g, b')" and s: "sim S p ((i, j) # done) a' b'" by blast
  from s assms(4) [of g a'] assms(5) [of g b'] have "sim S p ((i, j) # done) (h g a') (h' g b')"
    by (simp add: sim_cong [of "h g a'" a' "h' g b'" b'])
  with Inr r b show ?thesis by (simp add: follows_def)
qed

lemma alias_edge_stale_follows:
  assumes "sim S p done a b"
  shows "follows S p ((i, j) # done)
           (case alias_edge_stale G c t p i j a of Inl e \<Rightarrow> Inl e | Inr (g, st2) \<Rightarrow> Inr st2)
           (case alias_edge_stale G c t p i j b of Inl e \<Rightarrow> Inl e | Inr (g, st2) \<Rightarrow> Inr st2)"
proof (cases "alias_edge_stale G c t p i j a")
  case (Inl e)
  then show ?thesis by (simp add: follows_def)
next
  case (Inr r)
  obtain g a' where r: "r = (g, a')" by (cases r)
  from alias_edge_stale_sim [OF assms(1) Inr [unfolded r]] obtain b' where
    b: "alias_edge_stale G c t p i j b = Inr (g, b')" and s: "sim S p ((i, j) # done) a' b'" by blast
  with Inr r show ?thesis by (simp add: follows_def)
qed

lemma edge_cell_follows:
  assumes "sim S p done a b" and "master_first cn"
  shows "follows S p ((i, j) # done) (edge_cell G cn edg t p i j a) (edge_cell G cn edg t p i j b)"
proof (cases "findConIndex cn p edg")
  case (Inl e)
  then show ?thesis by (simp add: edge_cell_def follows_def)
next
  case (Inr r)
  obtain icon master where r: "r = (icon, master)" by (cases r)
  show ?thesis
  proof (cases master)
    case True
    with Inr r new_master_follows [OF assms(1)] show ?thesis by (simp add: edge_cell_def)
  next
    case False
    with Inr r slave_master_below [OF _ assms(2)]
    have "0 \<le> f1 (cn ! icon)" "f1 (cn ! icon) < int p" by simp_all
    from alias_edge_follows [OF assms(1) this, where h = "\<lambda>g s. s" and h' = "\<lambda>g s. s"] Inr r False
    show ?thesis by (simp add: edge_cell_def)
  qed
qed

lemma node0_follows:
  assumes "sim S p done a b" and "master_first cn"
  shows "follows S p ((i, j) # done) (node0 G cn p i j a) (node0 G cn p i j b)"
proof (cases "findConIndex cn p 0")
  case (Inl e)
  then show ?thesis by (simp add: node0_def follows_def)
next
  case f1: (Inr x1)
  obtain icon1 master1 where x1: "x1 = (icon1, master1)" by (cases x1)
  note r1 = f1 [unfolded x1]
  show ?thesis
  proof (cases "findConIndex cn p 2")
    case (Inl e)
    with r1 show ?thesis by (simp add: node0_def follows_def)
  next
    case f2: (Inr x2)
    obtain icon2 master2 where x2: "x2 = (icon2, master2)" by (cases x2)
    note r2 = f2 [unfolded x2]
    let ?a1 = "if master1 = False \<and> master2 = False
               then a\<lparr>ix_stdout := ix_stdout a @ both_false_lines p icon1 icon2\<rparr> else a"
    let ?b1 = "if master1 = False \<and> master2 = False
               then b\<lparr>ix_stdout := ix_stdout b @ both_false_lines p icon1 icon2\<rparr> else b"
    have s1: "sim S p done ?a1 ?b1" using assms(1) by simp
    show ?thesis
    proof (cases master1)
      case False
      from r1 False slave_master_below [OF _ assms(2), of p 0 icon1]
      have "0 \<le> f1 (cn ! icon1)" "f1 (cn ! icon1) < int p" by simp_all
      from alias_edge_follows [OF s1 this, where h = "\<lambda>g s. if master2 = False then s\<lparr>ix_stdout := ix_stdout s @ [''gindex: '' @ dec_int g]\<rparr> else s" and h' = "\<lambda>g s. if master2 = False then s\<lparr>ix_stdout := ix_stdout s @ [''gindex: '' @ dec_int g]\<rparr> else s"] r1 r2 False
      show ?thesis by (simp add: node0_def Let_def core_def)
    next
      case m1: True
      show ?thesis
      proof (cases master2)
        case True
        from new_master_follows [OF s1] r1 r2 m1 True
        show ?thesis by (simp add: node0_def Let_def)
      next
        case False
        from r2 False slave_master_below [OF _ assms(2), of p 2 icon2]
        have "0 \<le> f1 (cn ! icon2)" "f1 (cn ! icon2) < int p" by simp_all
        from alias_edge_follows [OF s1 this, where h = "\<lambda>g s. s" and h' = "\<lambda>g s. s"] r1 r2 m1 False
        show ?thesis by (simp add: node0_def Let_def)
      qed
    qed
  qed
qed

lemma node1_follows:
  assumes "sim S p done a b" and "master_first cn"
  shows "follows S p ((i, j) # done) (node1 G cn Nu p i j a) (node1 G cn Nu p i j b)"
proof (cases "findConIndex cn p 0")
  case (Inl e)
  then show ?thesis by (simp add: node1_def follows_def)
next
  case f1: (Inr x1)
  obtain icon1 master1 where x1: "x1 = (icon1, master1)" by (cases x1)
  note r1 = f1 [unfolded x1]
  show ?thesis
  proof (cases "findConIndex cn p 3")
    case (Inl e)
    with r1 show ?thesis by (simp add: node1_def follows_def)
  next
    case f2: (Inr x2)
    obtain icon2 master2 where x2: "x2 = (icon2, master2)" by (cases x2)
    note r2 = f2 [unfolded x2]
    note s1 = assms(1)
    show ?thesis
    proof (cases master1)
      case False
      from r1 False slave_master_below [OF _ assms(2), of p 0 icon1]
      have "0 \<le> f1 (cn ! icon1)" "f1 (cn ! icon1) < int p" by simp_all
      from alias_edge_follows [OF s1 this, where h = "\<lambda>g s. s" and h' = "\<lambda>g s. s"] r1 r2 False
      show ?thesis by (simp add: node1_def Let_def)
    next
      case m1: True
      show ?thesis
      proof (cases master2)
        case True
        from new_master_follows [OF s1] r1 r2 m1 True
        show ?thesis by (simp add: node1_def Let_def)
      next
        case False
        from r2 False slave_master_below [OF _ assms(2), of p 3 icon2]
        have "0 \<le> f1 (cn ! icon2)" "f1 (cn ! icon2) < int p" by simp_all
        from alias_edge_follows [OF s1 this, where h = "\<lambda>g s. s" and h' = "\<lambda>g s. s"] r1 r2 m1 False
        show ?thesis by (simp add: node1_def Let_def)
      qed
    qed
  qed
qed

lemma node2_follows:
  assumes "sim S p done a b" and "master_first cn"
  shows "follows S p ((i, j) # done) (node2 G cn Nv p i j a) (node2 G cn Nv p i j b)"
proof (cases "findConIndex cn p 1")
  case (Inl e)
  then show ?thesis by (simp add: node2_def follows_def)
next
  case f1: (Inr x1)
  obtain icon1 master1 where x1: "x1 = (icon1, master1)" by (cases x1)
  note r1 = f1 [unfolded x1]
  show ?thesis
  proof (cases "findConIndex cn p 2")
    case (Inl e)
    with r1 show ?thesis by (simp add: node2_def follows_def)
  next
    case f2: (Inr x2)
    obtain icon2 master2 where x2: "x2 = (icon2, master2)" by (cases x2)
    note r2 = f2 [unfolded x2]
    note s1 = assms(1)
    show ?thesis
    proof (cases master1)
      case False
      from alias_edge_stale_follows [OF s1] r1 r2 False
      show ?thesis by (simp add: node2_def Let_def)
    next
      case m1: True
      show ?thesis
      proof (cases master2)
        case True
        from new_master_follows [OF s1] r1 r2 m1 True
        show ?thesis by (simp add: node2_def Let_def)
      next
        case False
        from r2 False slave_master_below [OF _ assms(2), of p 2 icon2]
        have "0 \<le> f1 (cn ! icon2)" "f1 (cn ! icon2) < int p" by simp_all
        from alias_edge_follows [OF s1 this, where h = "\<lambda>g s. s" and h' = "\<lambda>g s. s"] r1 r2 m1 False
        show ?thesis by (simp add: node2_def Let_def)
      qed
    qed
  qed
qed

lemma node3_follows:
  assumes "sim S p done a b" and "master_first cn"
  shows "follows S p ((i, j) # done) (node3 G cn Nu Nv p i j a) (node3 G cn Nu Nv p i j b)"
proof (cases "findConIndex cn p 1")
  case (Inl e)
  then show ?thesis by (simp add: node3_def follows_def)
next
  case f1: (Inr x1)
  obtain icon1 master1 where x1: "x1 = (icon1, master1)" by (cases x1)
  note r1 = f1 [unfolded x1]
  show ?thesis
  proof (cases "findConIndex cn p 3")
    case (Inl e)
    with r1 show ?thesis by (simp add: node3_def follows_def)
  next
    case f2: (Inr x2)
    obtain icon2 master2 where x2: "x2 = (icon2, master2)" by (cases x2)
    note r2 = f2 [unfolded x2]
    note s1 = assms(1)
    show ?thesis
    proof (cases master1)
      case False
      from r1 False slave_master_below [OF _ assms(2), of p 1 icon1]
      have "0 \<le> f1 (cn ! icon1)" "f1 (cn ! icon1) < int p" by simp_all
      from alias_edge_follows [OF s1 this, where h = "\<lambda>g s. s" and h' = "\<lambda>g s. s"] r1 r2 False
      show ?thesis by (simp add: node3_def Let_def)
    next
      case m1: True
      show ?thesis
      proof (cases master2)
        case True
        from new_master_follows [OF s1] r1 r2 m1 True
        show ?thesis by (simp add: node3_def Let_def)
      next
        case False
        from r2 False slave_master_below [OF _ assms(2), of p 3 icon2]
        have "0 \<le> f1 (cn ! icon2)" "f1 (cn ! icon2) < int p" by simp_all
        from alias_edge_follows [OF s1 this, where h = "\<lambda>g s. s" and h' = "\<lambda>g s. s"] r1 r2 m1 False
        show ?thesis by (simp add: node3_def Let_def)
      qed
    qed
  qed
qed

lemma set_cell_follows:
  assumes "sim S p done a b" and "master_first cn" and "i < Nu" and "j < Nv"
  shows "follows S p ((i, j) # done) (set_cell G cn Nu Nv p i j a) (set_cell G cn Nu Nv p i j b)"
proof -
  have cover: "(0 < i \<and> int i < int Nu - 1 \<or> i = 0 \<or> int i = int Nu - 1)
             \<and> (0 < j \<and> int j < int Nv - 1 \<or> j = 0 \<or> int j = int Nv - 1)"
    using assms(3,4) by auto
  note parts = new_master_follows [OF assms(1)]
    edge_cell_follows [OF assms(1,2)]
    node0_follows [OF assms(1,2)] node1_follows [OF assms(1,2)]
    node2_follows [OF assms(1,2)] node3_follows [OF assms(1,2)]
  from cover show ?thesis
    unfolding set_cell_def by (auto intro: parts)
qed

lemma forE_snoc:
  "forE (xs @ [x]) body s = (case forE xs body s of Inl e \<Rightarrow> Inl e | Inr s' \<Rightarrow> body x s')"
  by (induction xs arbitrary: s) (auto split: sum.splits)

lemma follows_liftR: "follows S p dn = liftR (sim S p dn)"
  by (simp add: follows_def liftR_def fun_eq_iff)

lemma liftR_Inr: "liftR R (Inr a) rb = (\<exists>b. rb = Inr b \<and> R a b)"
  by (cases rb) (simp_all add: liftR_def)

lemma liftR_Inl [simp]: "liftR R (Inl e) rb"
  by (simp add: liftR_def)

lemma forE_upt_follows:
  assumes "\<And>q a b. q < n \<Longrightarrow> R q a b \<Longrightarrow> liftR (R (Suc q)) (body q a) (body q b)"
    and "R 0 a b"
  shows "liftR (R n) (forE [0..<n] body a) (forE [0..<n] body b)"
  using assms
proof (induction n)
  case 0
  then show ?case by (simp add: liftR_Inr)
next
  case (Suc n)
  have ih: "liftR (R n) (forE [0..<n] body a) (forE [0..<n] body b)"
    by (rule Suc.IH) (auto intro: Suc.prems)
  show ?case
  proof (cases "forE [0..<n] body a")
    case (Inl e)
    then show ?thesis by (simp add: forE_snoc)
  next
    case (Inr a1)
    with ih obtain b1 where b1: "forE [0..<n] body b = Inr b1" and r: "R n a1 b1"
      by (auto simp: liftR_Inr)
    from Suc.prems(1) [OF _ r] Inr b1 show ?thesis
      by (simp add: forE_snoc)
  qed
qed

lemma row_done_simps: "row_done i 0 = []" "row_done i (Suc q) = (i, q) # row_done i q"
  by (simp_all add: row_done_def)

lemma rows_done_simps: "rows_done Nv 0 = []" "rows_done Nv (Suc q) = row_done q Nv @ rows_done Nv q"
  by (simp_all add: rows_done_def)

lemma row_follows:
  assumes "sim S p dn a b" and "master_first cn" and "i < Nu"
  shows "follows S p (row_done i Nv @ dn)
           (forE [0..<Nv] (set_cell G cn Nu Nv p i) a) (forE [0..<Nv] (set_cell G cn Nu Nv p i) b)"
  unfolding follows_liftR
proof (rule forE_upt_follows [where R = "\<lambda>q. sim S p (row_done i q @ dn)"])
  fix q x y
  assume "q < Nv" and "sim S p (row_done i q @ dn) x y"
  from set_cell_follows [OF this(2) assms(2,3) this(1), of G]
  show "liftR (sim S p (row_done i (Suc q) @ dn)) (set_cell G cn Nu Nv p i q x) (set_cell G cn Nu Nv p i q y)"
    by (simp add: follows_liftR row_done_simps)
next
  show "sim S p (row_done i 0 @ dn) a b" using assms(1) by (simp add: row_done_simps)
qed

lemma rows_follow:
  assumes "sim S p [] a b" and "master_first cn"
  shows "follows S p (rows_done Nv Nu)
           (forE [0..<Nu] (\<lambda>i. forE [0..<Nv] (set_cell G cn Nu Nv p i)) a)
           (forE [0..<Nu] (\<lambda>i. forE [0..<Nv] (set_cell G cn Nu Nv p i)) b)"
  unfolding follows_liftR
proof (rule forE_upt_follows [where R = "\<lambda>q. sim S p (rows_done Nv q)"])
  fix q x y
  assume "q < Nu" and "sim S p (rows_done Nv q) x y"
  from row_follows [OF this(2) assms(2) this(1), of Nv G]
  show "liftR (sim S p (rows_done Nv (Suc q))) (forE [0..<Nv] (set_cell G cn Nu Nv p q) x)
          (forE [0..<Nv] (set_cell G cn Nu Nv p q) y)"
    by (simp add: follows_liftR rows_done_simps)
next
  show "sim S p (rows_done Nv 0) a b" using assms(1) by (simp add: rows_done_simps)
qed

lemma set_rows_done: "set (rows_done Nv Nu) = {(i, j). i < Nu \<and> j < Nv}"
  by (auto simp: rows_done_def row_done_def)

lemma wf_surf_shape:
  assumes "shape x = shape y"
  shows "wf_surf x = wf_surf y"
proof -
  from assms have nu: "Nctlu x = Nctlu y" and nv: "Nctlv x = Nctlv y"
    and ml: "map length (globalCtlIndex x) = map length (globalCtlIndex y)"
    by (simp_all add: shape_def)
  from ml have len: "length (globalCtlIndex x) = length (globalCtlIndex y)"
    by (metis length_map)
  have "list_all (\<lambda>row. length row = n) g = list_all (\<lambda>l. l = n) (map length g)"
    for n and g :: "int list list"
    by (simp add: list_all_iff)
  with ml have "list_all (\<lambda>row. length row = Nctlv y) (globalCtlIndex x)
      = list_all (\<lambda>row. length row = Nctlv y) (globalCtlIndex y)"
    by simp
  with nu nv len show ?thesis by (simp add: wf_surf_def)
qed

lemma agree_next:
  assumes ag: "agree S p dn A B" and p: "p < length A" and wf: "wf_surf (A ! p)"
    and dn: "\<And>i j. i < Nctlu (A ! p) \<Longrightarrow> j < Nctlv (A ! p) \<Longrightarrow> (i, j) \<in> set dn"
  shows "agree S (Suc p) [] A B"
proof -
  from ag have shA: "map shape A = S" and shB: "map shape B = S" and tk: "take p A = take p B"
    and eqs: "\<And>c. c \<in> set dn \<Longrightarrow> globalCtlIndex (A ! p) ! fst c ! snd c = globalCtlIndex (B ! p) ! fst c ! snd c"
    by (simp_all add: agree_def list_all_iff)
  from shA shB have sh: "map shape A = map shape B" by simp
  then have len: "length A = length B" by (rule map_shape_length)
  from sh p have shp: "shape (A ! p) = shape (B ! p)" by (rule map_shape_nth)
  then have nu: "Nctlu (A ! p) = Nctlu (B ! p)" and nv: "Nctlv (A ! p) = Nctlv (B ! p)"
    and ml: "map length (globalCtlIndex (A ! p)) = map length (globalCtlIndex (B ! p))"
    by (simp_all add: shape_def)
  from wf have la: "length (globalCtlIndex (A ! p)) = Nctlu (A ! p)"
    and ra: "\<And>i. i < Nctlu (A ! p) \<Longrightarrow> length (globalCtlIndex (A ! p) ! i) = Nctlv (A ! p)"
    by (simp_all add: wf_surf_def list_all_length)
  from ml have lb: "length (globalCtlIndex (B ! p)) = length (globalCtlIndex (A ! p))"
    by (metis length_map)
  have rows: "globalCtlIndex (A ! p) ! i = globalCtlIndex (B ! p) ! i" if i: "i < Nctlu (A ! p)" for i
  proof (rule nth_equalityI)
    from ml i la show "length (globalCtlIndex (A ! p) ! i) = length (globalCtlIndex (B ! p) ! i)"
      by (metis length_map nth_map)
  next
    fix j assume "j < length (globalCtlIndex (A ! p) ! i)"
    with ra [OF i] have "j < Nctlv (A ! p)" by simp
    from eqs [OF dn [OF i this]] show "globalCtlIndex (A ! p) ! i ! j = globalCtlIndex (B ! p) ! i ! j"
      by simp
  qed
  have "globalCtlIndex (A ! p) = globalCtlIndex (B ! p)"
    by (rule nth_equalityI) (simp_all add: lb la rows)
  with nu nv have same: "A ! p = B ! p" by simp
  from p len have "take (Suc p) A = take p A @ [A ! p]" "take (Suc p) B = take p B @ [B ! p]"
    by (simp_all add: take_Suc_conv_app_nth)
  with tk same have "take (Suc p) A = take (Suc p) B" by simp
  with shA shB show ?thesis by (simp add: agree_def)
qed

lemma index_surface_follows:
  assumes s: "sim S p [] a b" and mf: "master_first cn" and p: "p < length S"
    and wf: "list_all (\<lambda>sh. length (snd (snd sh)) = fst sh \<and> list_all (\<lambda>l. l = fst (snd sh)) (snd (snd sh))) S"
  shows "liftR (sim S (Suc p) []) (index_surface G cn p a) (index_surface G cn p b)"
proof -
  from s have c: "core a = core b" and pb: "pid_below p a"
    and ag: "agree S p [] (ix_surfs a) (ix_surfs b)" by (simp_all add: sim_def)
  from ag have shA: "map shape (ix_surfs a) = S" and shB: "map shape (ix_surfs b) = S"
    by (simp_all add: agree_def)
  from shA p have pa: "p < length (ix_surfs a)" by (metis length_map)
  from shB p have pbl: "p < length (ix_surfs b)" by (metis length_map)
  from shA shB pa pbl have shp: "shape (ix_surfs a ! p) = S ! p" "shape (ix_surfs b ! p) = S ! p"
    by (metis nth_map)+
  then have "shape (ix_surfs b ! p) = shape (ix_surfs a ! p)" by simp
  then have nu: "Nctlu (ix_surfs b ! p) = Nctlu (ix_surfs a ! p)"
    and nv: "Nctlv (ix_surfs b ! p) = Nctlv (ix_surfs a ! p)"
    by (simp_all add: shape_def)
  let ?Nu = "Nctlu (ix_surfs a ! p)" and ?Nv = "Nctlv (ix_surfs a ! p)"
  let ?loop = "forE [0..<?Nu] (\<lambda>i. forE [0..<?Nv] (set_cell G cn ?Nu ?Nv p i))"
  have "core (a\<lparr>master_bool_array := []\<rparr>) = core (b\<lparr>master_bool_array := []\<rparr>)"
    using c by (simp add: core_def)
  moreover have "pid_below p (a\<lparr>master_bool_array := []\<rparr>)"
    using pb by (simp add: pid_below_def)
  ultimately have s0: "sim S p [] (a\<lparr>master_bool_array := []\<rparr>) (b\<lparr>master_bool_array := []\<rparr>)"
    using ag by (simp add: sim_def)
  from rows_follow [OF s0 mf, of ?Nv ?Nu G]
  have fl: "liftR (sim S p (rows_done ?Nv ?Nu)) (?loop (a\<lparr>master_bool_array := []\<rparr>))
              (?loop (b\<lparr>master_bool_array := []\<rparr>))"
    by (simp add: follows_liftR)
  show ?thesis
  proof (cases "?loop (a\<lparr>master_bool_array := []\<rparr>)")
    case (Inl e)
    then show ?thesis by (simp add: index_surface_def Let_def)
  next
    case (Inr a1)
    with fl obtain b1 where b1: "?loop (b\<lparr>master_bool_array := []\<rparr>) = Inr b1"
      and s1: "sim S p (rows_done ?Nv ?Nu) a1 b1" by (auto simp: liftR_Inr)
    show ?thesis
    proof (cases "?Nu = 0 \<or> ?Nv = 0")
      case True
      with Inr show ?thesis by (simp add: index_surface_def Let_def)
    next
      case False
      from s1 have c1: "core a1 = core b1" and pb1: "pid_below p a1"
        and ag1: "agree S p (rows_done ?Nv ?Nu) (ix_surfs a1) (ix_surfs b1)"
        by (simp_all add: sim_def)
      from ag1 have shA1: "map shape (ix_surfs a1) = S" by (simp add: agree_def)
      with p have pa1: "p < length (ix_surfs a1)" by (metis length_map)
      with shA1 have shp1: "shape (ix_surfs a1 ! p) = S ! p" by (metis nth_map)
      with shp(1) have "shape (ix_surfs a1 ! p) = shape (ix_surfs a ! p)" by simp
      then have d1: "Nctlu (ix_surfs a1 ! p) = ?Nu" "Nctlv (ix_surfs a1 ! p) = ?Nv"
        by (simp_all add: shape_def)
      from wf p have "length (snd (snd (S ! p))) = fst (S ! p)
          \<and> list_all (\<lambda>l. l = fst (snd (S ! p))) (snd (snd (S ! p)))"
        by (simp add: list_all_length)
      with shp1 [symmetric] have wf1: "wf_surf (ix_surfs a1 ! p)"
        by (simp add: wf_surf_def shape_def list_all_iff)
      have ag2: "agree S (Suc p) [] (ix_surfs a1) (ix_surfs b1)"
        by (rule agree_next [OF ag1 pa1 wf1]) (simp add: d1 set_rows_done)
      from c1 have mb: "master_bool_array b1 = master_bool_array a1" by (simp add: core_def)
      let ?fin = "\<lambda>st. st\<lparr>ix_coef_shapes := ix_coef_shapes st @ [free_shape ?Nu ?Nv (master_bool_array st)]\<rparr>"
      have "core (?fin a1) = core (?fin b1)"
        using c1 by (simp add: core_def)
      moreover have "pid_below (Suc p) (?fin a1)"
        using pb1 by (auto simp: pid_below_def split: option.splits)
      ultimately have "sim S (Suc p) [] (?fin a1) (?fin b1)"
        using ag2 by (simp add: sim_def)
      with Inr b1 False nu nv show ?thesis
        by (simp add: index_surface_def Let_def liftR_Inr)
    qed
  qed
qed

lemma wf_shapes_map: "list_all wf_surf ss \<Longrightarrow> wf_shapes (map shape ss)"
  by (auto simp: wf_shapes_def wf_surf_def shape_def list_all_iff)

lemma run_follows:
  assumes "sim S 0 [] a b" and "master_first cn" and "wf_shapes S"
  shows "liftR (sim S (length S) [])
           (forE [0..<length S] (index_surface G cn) a) (forE [0..<length S] (index_surface G cn) b)"
proof (rule forE_upt_follows [where R = "\<lambda>q. sim S q []"])
  fix q x y
  assume "q < length S" and "sim S q [] x y"
  from index_surface_follows [OF this(2) assms(2) this(1) assms(3) [unfolded wf_shapes_def]]
  show "liftR (sim S (Suc q) []) (index_surface G cn q x) (index_surface G cn q y)" .
next
  show "sim S 0 [] a b" by (rule assms(1))
qed

lemma sim_final:
  assumes "sim S (length S) [] a b"
  shows "ix_surfs a = ix_surfs b" and "core a = core b" and "map shape (ix_surfs a) = S"
proof -
  from assms have shA: "map shape (ix_surfs a) = S" and shB: "map shape (ix_surfs b) = S"
    and tk: "take (length S) (ix_surfs a) = take (length S) (ix_surfs b)"
    by (simp_all add: sim_def agree_def)
  from shA shB have "length (ix_surfs a) = length S" "length (ix_surfs b) = length S"
    by (metis length_map)+
  with tk show "ix_surfs a = ix_surfs b" by simp
  from assms show "core a = core b" by (simp add: sim_def)
  from shA show "map shape (ix_surfs a) = S" .
qed

lemma setEdgeConnectivity_independent:
  assumes run: "setEdgeConnectivity G self0 = Inr self1"
    and c0: "con self0 = Some cn" and mf: "master_first cn"
    and wf: "list_all wf_surf (surfs self0)"
    and co: "con other = Some cn"
    and sh: "map shape (surfs other) = map shape (surfs self0)"
  shows "map_sum id indexer_state (setEdgeConnectivity G other) = Inr (indexer_state self1)"
    and "map shape (surfs self1) = map shape (surfs self0)"
proof -
  let ?S = "map shape (surfs self0)"
  have n0: "length ?S = length (surfs self0)" by simp
  from sh have no: "length (surfs other) = length ?S" by (metis length_map)
  from run c0 obtain a' where
    ra: "forE [0..<length ?S] (index_surface G cn) (start_indexing self0) = Inr a'"
    and s1: "self1 = self0\<lparr>surfs := ix_surfs a', global_coef := ix_global_coef a',
               Ncoef := counter a', coef_shapes := ix_coef_shapes a', stdout := ix_stdout a'\<rparr>"
    by (auto simp: setEdgeConnectivity_def start_indexing_def split: sum.splits)
  have wfS: "wf_shapes ?S" using wf by (rule wf_shapes_map)
  have "sim ?S 0 [] (start_indexing self0) (start_indexing self0)"
    by (simp add: sim_def core_def pid_below_def agree_def start_indexing_def)
  from run_follows [OF this mf wfS, of G] ra have "sim ?S (length ?S) [] a' a'"
    by (simp add: liftR_Inr)
  from sim_final(3) [OF this] s1 show "map shape (surfs self1) = map shape (surfs self0)"
    by simp
  have "sim ?S 0 [] (start_indexing self0) (start_indexing other)"
    using sh by (simp add: sim_def core_def pid_below_def agree_def start_indexing_def)
  from run_follows [OF this mf wfS, of G] ra obtain b' where
    rb: "forE [0..<length ?S] (index_surface G cn) (start_indexing other) = Inr b'"
    and sf: "sim ?S (length ?S) [] a' b'"
    by (auto simp: liftR_Inr)
  from sim_final(1,2) [OF sf] have "ix_surfs b' = ix_surfs a'" "ix_global_coef b' = ix_global_coef a'"
    "counter b' = counter a'" "ix_coef_shapes b' = ix_coef_shapes a'"
    by (simp_all add: core_def)
  with rb co c0 no s1
  show "map_sum id indexer_state (setEdgeConnectivity G other) = Inr (indexer_state self1)"
    by (simp add: setEdgeConnectivity_def start_indexing_def indexer_state_def)
qed

text \<open>
  The round trip for any indexed table whose records are as \<open>edge.__init__\<close> builds them
  and whose master faces come before their slave faces, over index arrays of shape
  \<open>Nctlu \<times> Nctlv\<close>: the file written gives back every record with every field, and
  reading it back, or reading it into an object without connectivity over patches of the
  same shapes, gives the indexer state that was written.
\<close>

lemma indexed_table_roundtrip:
  assumes run: "setEdgeConnectivity G self0 = Inr self"
    and c0: "con self0 = Some cn" and can: "list_all canonical cn" and mf: "master_first cn"
    and wf: "list_all wf_surf (surfs self0)"
  shows "write_then_parse self = Inr cn
    \<and> map_sum id indexer_and_input (write_then_read G (ans # rest) self self)
        = Inr (indexer_state self, rest)
    \<and> (con other = None \<and> map shape (surfs other) = map shape (surfs self0) \<longrightarrow>
        map_sum id indexer_and_input (write_then_read G rest self other)
          = Inr (indexer_state self, rest))"
proof -
  from run c0 have c1: "con self = Some cn"
    by (auto simp: setEdgeConnectivity_def split: sum.splits)
  from read_written_file [OF c1 can] obtain lines where
    w: "writeEdgeConnectivity self = Inr lines" and r: "read_records lines = Inr cn" by blast
  note ind = setEdgeConnectivity_independent [OF run c0 mf wf]
  have shp: "map shape (surfs self) = map shape (surfs self0)"
    by (rule ind(2) [of self0, OF c0 refl])
  have "self\<lparr>con := Some cn\<rparr> = self" using c1 by simp
  with ind(1) [of self, OF c1 shp]
  have again: "map_sum id indexer_state (setEdgeConnectivity G (self\<lparr>con := Some cn\<rparr>)) = Inr (indexer_state self)"
    by simp
  have p1: "write_then_parse self = Inr cn"
    using w r by (simp add: write_then_parse_def bindE_def)
  have p2: "map_sum id indexer_and_input (write_then_read G (ans # rest) self self)
        = Inr (indexer_state self, rest)"
  proof (cases "ans = ''0''")
    case True
    with w c1 show ?thesis
      by (simp add: write_then_read_def bindE_def readEdgeConnectivity_def raw_input_def
          indexer_and_input_def)
  next
    case False
    from again obtain g where g: "setEdgeConnectivity G (self\<lparr>con := Some cn\<rparr>) = Inr g"
      and gi: "indexer_state g = indexer_state self"
      by (cases "setEdgeConnectivity G (self\<lparr>con := Some cn\<rparr>)") simp_all
    with False w r c1 show ?thesis
      by (simp add: write_then_read_def bindE_def readEdgeConnectivity_def raw_input_def
          readEdgeConnectivity_run_def indexer_and_input_def)
  qed
  have p3: "map_sum id indexer_and_input (write_then_read G rest self other)
          = Inr (indexer_state self, rest)"
    if o: "con other = None" "map shape (surfs other) = map shape (surfs self0)"
  proof -
    from ind(1) [of "other\<lparr>con := Some cn\<rparr>"] o(2)
    obtain g where g: "setEdgeConnectivity G (other\<lparr>con := Some cn\<rparr>) = Inr g"
      and gi: "indexer_state g = indexer_state self"
      by (cases "setEdgeConnectivity G (other\<lparr>con := Some cn\<rparr>)") simp_all
    with w r o(1) show ?thesis
      by (simp add: write_then_read_def bindE_def readEdgeConnectivity_def
          readEdgeConnectivity_run_def indexer_and_input_def)
  qed
  from p1 p2 p3 show ?thesis by blast
qed

subsection \<open>The tables that discovery builds\<close>

lemma find_mirrored_result:
  "distinct fes \<Longrightarrow>
   find_mirrored fes (m, el) =
     (m @ map (\<lambda>fe. Mirrored fe (-1)) (filter (\<lambda>fe. fe \<notin> set el) fes),
      el @ filter (\<lambda>fe. fe \<notin> set el) fes)"
proof (induction fes arbitrary: m el)
  case Nil
  then show ?case by simp
next
  case (Cons fe fes)
  from Cons.prems have d: "distinct fes" and nf: "fe \<notin> set fes" by simp_all
  show ?case
  proof (cases "fe \<in> set el")
    case True
    with Cons.IH [OF d] show ?thesis by simp
  next
    case False
    from nf have "filter (\<lambda>x. x \<notin> set (el @ [fe])) fes = filter (\<lambda>x. x \<notin> set el) fes"
      by (intro filter_cong) auto
    with False Cons.IH [OF d, of "m @ [Mirrored fe (-1)]" "el @ [fe]"] show ?thesis
      by simp
  qed
qed

lemma skel_set_raw_dg [simp]: "skel (set_raw_dg v e) = skel e"
  by (cases e) (simp_all add: skel_def)

lemma map_skel_update:
  "map skel (es[k := set_raw_dg v (es ! k)]) = map skel es"
  by (rule map_update_same) simp

lemma propagate_skel:
  "propagate edge_list nJoined nMirror dg_counter edges index ord = Inr edges' \<Longrightarrow>
   map skel edges' = map skel edges"
proof (induction edge_list nJoined nMirror dg_counter edges index ord rule: propagate.induct)
  case (1 edge_list nJoined nMirror dg_counter edges index ord)
  from "1.prems" have idx: "index < length edges"
    by (subst (asm) propagate.simps) (auto split: if_splits)
  from "1.prems" idx obtain cur_face cur_edge where
    m: "raw_member (edges ! index) ord = Inr (cur_face, cur_edge)"
    by (subst (asm) propagate.simps) (auto split: sum.splits)
  from "1.prems" idx m obtain new_index ord' where
    g: "getConIndex edge_list (cur_face, flipEdge cur_edge) nJoined nMirror = Inr (new_index, ord')"
    by (subst (asm) propagate.simps) (auto split: sum.splits)
  from "1.prems" idx m g have ni: "new_index < length edges"
    by (subst (asm) propagate.simps) (auto split: if_splits)
  let ?edges1 = "edges[new_index := set_raw_dg (int dg_counter) (edges ! new_index)]"
  show ?case
  proof (cases "raw_dg (edges ! new_index) \<noteq> -1")
    case True
    with "1.prems" idx m g ni show ?thesis
      by (subst (asm) propagate.simps) simp
  next
    case unset: False
    show ?thesis
    proof (cases "is_mirrored (edges ! new_index)")
      case True
      with "1.prems" idx m g ni unset have "edges' = ?edges1"
        by (subst (asm) propagate.simps) simp
      then show ?thesis by (simp add: map_skel_update)
    next
      case False
      with "1.prems" idx m g ni unset
      have rec: "propagate edge_list nJoined nMirror dg_counter ?edges1 new_index
                   (if ord' = 0 then 1 else 0) = Inr edges'"
        by (subst (asm) propagate.simps) simp
      have "map skel edges' = map skel ?edges1"
        using idx m g ni unset False rec
        by (intro "1.IH" [of "(cur_face, cur_edge)" cur_face cur_edge "(new_index, ord')" new_index ord']) simp_all
      then show ?thesis by (simp add: map_skel_update)
    qed
  qed
qed

lemma assign_step_skel:
  assumes "assign_step edge_list nJoined nMirror i (dgc, edges) = Inr (dgc', edges')"
  shows "map skel edges' = map skel edges"
proof (cases "i \<ge> length edges \<or> raw_dg (edges ! i) \<noteq> -1")
  case True
  with assms show ?thesis by (auto simp: assign_step_def split: if_splits)
next
  case False
  let ?e1 = "edges[i := set_raw_dg (dgc + 1) (edges ! i)]"
  from assms False obtain flip_index ord where
    g: "getConIndex edge_list (fst (raw_first (?e1 ! i)), flipEdge (snd (raw_first (?e1 ! i)))) nJoined nMirror
          = Inr (flip_index, ord)"
    by (auto simp: assign_step_def Let_def split: sum.splits)
  let ?e2 = "?e1[flip_index := set_raw_dg (dgc + 1) (?e1 ! flip_index)]"
  from assms False g have fl: "flip_index < length ?e1"
    by (auto simp: assign_step_def Let_def split: if_splits)
  from assms False g fl obtain e3 where
    p1: "(if is_mirrored (?e2 ! i) then Inr ?e2
          else propagate edge_list nJoined nMirror (nat (dgc + 1)) ?e2 i 1) = Inr e3"
    by (auto simp: assign_step_def Let_def split: sum.splits)
  from assms False g fl p1 have
    p2: "(if is_mirrored (e3 ! flip_index) then Inr e3
          else propagate edge_list nJoined nMirror (nat (dgc + 1)) e3 flip_index 1) = Inr edges'"
    by (auto simp: assign_step_def Let_def split: sum.splits)
  from p1 have "map skel e3 = map skel ?e2"
    by (auto split: if_splits dest: propagate_skel)
  moreover from p2 have "map skel edges' = map skel e3"
    by (auto split: if_splits dest: propagate_skel)
  ultimately show ?thesis by (simp add: map_skel_update)
qed

lemma assign_all_skel:
  "forE is (assign_step edge_list nJoined nMirror) acc = Inr acc' \<Longrightarrow>
   map skel (snd acc') = map skel (snd acc)"
proof (induction "is" arbitrary: acc)
  case Nil
  then show ?case by simp
next
  case (Cons i "is")
  from Cons.prems obtain acc1 where a: "assign_step edge_list nJoined nMirror i acc = Inr acc1"
    and r: "forE is (assign_step edge_list nJoined nMirror) acc1 = Inr acc'"
    by (auto split: sum.splits)
  from a have "map skel (snd acc1) = map skel (snd acc)"
    using assign_step_skel [of edge_list nJoined nMirror i "fst acc" "snd acc" "fst acc1" "snd acc1"]
    by simp
  with Cons.IH [OF r] show ?case by simp
qed

lemma find_joined_members:
  assumes "e \<in> set (find_joined T nSurf)"
  shows "\<exists>isurf i jpatch j d. e = Joined (isurf, i) (jpatch, j) 0 d (-1) \<and> isurf < jpatch
           \<and> jpatch < nSurf \<and> i < 4 \<and> j < 4"
  using assms
  by (auto simp: find_joined_def split: prod.splits if_splits)

lemma make_edge_rec_of: "make_edge nJoined (i, e) = Inr c \<Longrightarrow> c = rec_of e"
  by (cases e)
    (auto simp: make_edge_def init_string_def edge_init_fmt_row split: if_splits)

lemma mapE_map:
  assumes "\<And>x y. x \<in> set xs \<Longrightarrow> f x = Inr y \<Longrightarrow> y = g x" and "mapE f xs = Inr ys"
  shows "ys = map g xs"
  using assms
proof (induction xs arbitrary: ys)
  case Nil
  then show ?case by simp
next
  case (Cons x xs)
  from Cons.prems(2) obtain y ys' where y: "f x = Inr y" and r: "mapE f xs = Inr ys'"
    and ys: "ys = y # ys'"
    by (auto split: sum.splits)
  from Cons.prems(1) [OF _ y] have "y = g x" by simp
  moreover have "ys' = map g xs" by (rule Cons.IH [OF _ r]) (auto intro: Cons.prems(1))
  ultimately show ?case using ys by simp
qed

lemma discover_records:
  assumes "discover T nSurf = Inr cn"
  shows "\<exists>edges'. map skel edges' = map skel (found_edges T nSurf) \<and> cn = map rec_of edges'"
proof -
  let ?e_con = "find_joined T nSurf"
  let ?found = "find_mirrored (all_face_edges nSurf) ([], joined_members ?e_con)"
  let ?edges = "?e_con @ fst ?found"
  from assms obtain dgc edges' where
    loop: "forE [0..<length ?edges] (assign_step (snd ?found) (length ?e_con * 2) (length (fst ?found)))
             (-1, ?edges) = Inr (dgc, edges')"
    and mk: "mapE (make_edge (length ?e_con * 2)) (enumerate 0 edges') = Inr cn"
    by (auto simp: discover_def Let_def split: sum.splits prod.splits)
  from assign_all_skel [OF loop] have sk: "map skel edges' = map skel ?edges" by simp
  have "cn = map (\<lambda>ie. rec_of (snd ie)) (enumerate 0 edges')"
  proof (rule mapE_map [OF _ mk])
    fix x y assume "make_edge (length ?e_con * 2) x = Inr y"
    then show "y = rec_of (snd x)" using make_edge_rec_of [of _ "fst x" "snd x" y] by simp
  qed
  moreover have "map (\<lambda>ie. rec_of (snd ie)) (enumerate 0 edges') = map rec_of edges'"
    by (rule nth_equalityI) (simp_all add: nth_enumerate_eq)
  ultimately have "cn = map rec_of edges'" by simp
  with sk show ?thesis by (auto simp: found_edges_def)
qed

lemma ordered_skel: "ordered (skel e) = ordered e"
  by (cases e) (simp_all add: ordered_def skel_def)

lemma distinct_all_face_edges: "distinct (all_face_edges nSurf)"
  unfolding all_face_edges_def
  by (rule distinct_concat_upt [where tag = fst]) (auto simp: distinct_map inj_on_def)

lemma found_edges_ordered: "list_all ordered (found_edges T nSurf)"
proof -
  have "ordered e" if "e \<in> set (find_joined T nSurf)" for e
    using find_joined_members [OF that] by (auto simp: ordered_def)
  moreover have "fst (find_mirrored (all_face_edges nSurf) ([], el))
      = map (\<lambda>fe. Mirrored fe (-1)) (filter (\<lambda>fe. fe \<notin> set el) (all_face_edges nSurf))" for el
    by (subst find_mirrored_result) (simp_all add: distinct_all_face_edges)
  ultimately show ?thesis
    by (auto simp: found_edges_def list_all_iff ordered_def)
qed

lemma discover_canonical_master_first:
  assumes "discover T nSurf = Inr cn"
  shows "list_all canonical cn" and "master_first cn"
proof -
  from discover_records [OF assms] obtain edges' where
    sk: "map skel edges' = map skel (found_edges T nSurf)" and cn: "cn = map rec_of edges'" by blast
  have "list_all ordered (map skel edges')"
    using found_edges_ordered [of T nSurf] by (simp add: sk list_all_iff ordered_skel)
  then have ord: "list_all ordered edges'" by (simp add: list_all_iff ordered_skel)
  have "canonical (rec_of e)" for e by (cases e) (simp_all add: canonical_def)
  then show "list_all canonical cn" by (simp add: cn list_all_iff)
  have "f2 (rec_of e) < 0 \<or> (0 \<le> f1 (rec_of e) \<and> f1 (rec_of e) < f2 (rec_of e))" if "ordered e" for e
    using that by (cases e) (simp_all add: ordered_def)
  with ord show "master_first cn" by (simp add: cn master_first_def list_all_iff)
qed

text \<open>
  Claim C6. For every connectivity state that \<open>calcEdgeConnectivity\<close> computes, over
  index arrays of shape \<open>Nctlu \<times> Nctlv\<close>: the file written by
  \<open>writeEdgeConnectivity\<close> gives back every record with every field; reading it back
  with \<open>readEdgeConnectivity\<close>, whatever is answered to its prompt, leaves \<open>con\<close>,
  \<open>globalCtlIndex\<close>, \<open>global_coef\<close>, \<open>Ncoef\<close> and the free shapes as they were
  before the write; and reading it into an object without connectivity over patches of
  the same shapes reconstructs that same state. This holds for any edge matcher and any
  \<open>getGlobalIndexEdge\<close>.
\<close>

theorem computed_connectivity_roundtrip:
  assumes run: "calcEdgeConnectivity_run G T self0 = Inr self"
    and wf: "list_all wf_surf (surfs self0)"
  shows "con self \<noteq> None
    \<and> write_then_parse self = Inr (con_list self)
    \<and> map_sum id indexer_and_input (write_then_read G (ans # rest) self self)
        = Inr (indexer_state self, rest)
    \<and> (con other = None \<and> map shape (surfs other) = map shape (surfs self0) \<longrightarrow>
        map_sum id indexer_and_input (write_then_read G rest self other)
          = Inr (indexer_state self, rest))"
proof -
  from run obtain cn where d: "discover T (length (surfs self0)) = Inr cn"
    and ix: "setEdgeConnectivity G (self0\<lparr>con := Some cn\<rparr>) = Inr self"
    by (auto simp: calcEdgeConnectivity_run_def split: sum.splits)
  from ix have c1: "con self = Some cn"
    by (auto simp: setEdgeConnectivity_def split: sum.splits)
  note tab = discover_canonical_master_first [OF d]
  from indexed_table_roundtrip [OF ix _ tab, of ans rest other] wf c1
  show ?thesis by (simp add: con_list_def)
qed

theorem computed_connectivity_roundtrip_witness:
  "calcEdgeConnectivity_run getGlobalIndexEdge (shared_edge 1) two_squares = Inr two_squares_joined
   \<and> list_all wf_surf (surfs two_squares)
   \<and> con (unindexed two_squares_joined) = None
   \<and> map shape (surfs (unindexed two_squares_joined)) = map shape (surfs two_squares)
   \<and> con two_squares_joined \<noteq> None
   \<and> write_then_parse two_squares_joined = Inr (con_list two_squares_joined)
   \<and> map_sum id indexer_and_input
        (write_then_read getGlobalIndexEdge [''1'', ''x''] two_squares_joined two_squares_joined)
        = Inr (indexer_state two_squares_joined, [''x''])
   \<and> map_sum id indexer_and_input
        (write_then_read getGlobalIndexEdge [''x''] two_squares_joined (unindexed two_squares_joined))
        = Inr (indexer_state two_squares_joined, [''x''])"
proof -
  have h1: "calcEdgeConnectivity_run getGlobalIndexEdge (shared_edge 1) two_squares
              = Inr two_squares_joined" by code_simp
  have h2: "list_all wf_surf (surfs two_squares)" by code_simp
  have h3: "con (unindexed two_squares_joined) = None" by (simp add: unindexed_def)
  have h4: "map shape (surfs (unindexed two_squares_joined)) = map shape (surfs two_squares)"
    by code_simp
  show ?thesis
    using computed_connectivity_roundtrip [OF h1 h2, where ans = "''1''" and rest = "[''x'']"
        and other = "unindexed two_squares_joined"] h1 h2 h3 h4
    by simp
qed

subsection \<open>Coverage of the patch edges\<close>

lemma references_rec_of: "references (rec_of e) p q = ((p, q) \<in> set (raw_members e))"
  by (cases e) (auto simp: references_def)

lemma raw_members_skel: "raw_members (skel e) = raw_members e"
  by (cases e) (simp_all add: skel_def)

lemma map_raw_members_skel:
  assumes "map skel xs = map skel ys"
  shows "map raw_members xs = map raw_members ys"
proof -
  have "map raw_members zs = map raw_members (map skel zs)" for zs
    by (simp add: raw_members_skel)
  with assms show ?thesis by metis
qed

lemma ref_count_rec_of:
  "ref_count (map rec_of es) p q = length (filter (\<lambda>ms. (p, q) \<in> set ms) (map raw_members es))"
  by (simp add: ref_count_def filter_map comp_def references_rec_of)

lemma joined_members_concat:
  "list_all (\<lambda>e. \<not> is_mirrored e) es \<Longrightarrow> concat (map raw_members es) = joined_members es"
  by (induction es rule: joined_members.induct) simp_all

lemma find_joined_not_mirrored: "list_all (\<lambda>e. \<not> is_mirrored e) (find_joined T nSurf)"
  using find_joined_members [of _ T nSurf] by (fastforce simp: list_all_iff)

lemma found_members:
  "concat (map raw_members (found_edges T nSurf)) =
     joined_members (find_joined T nSurf)
     @ filter (\<lambda>fe. fe \<notin> set (joined_members (find_joined T nSurf))) (all_face_edges nSurf)"
proof -
  have "concat (map raw_members (map (\<lambda>fe. Mirrored fe (-1)) xs)) = xs" for xs :: "(nat \<times> nat) list"
    by (induction xs) simp_all
  then show ?thesis
    by (simp add: found_edges_def find_mirrored_result distinct_all_face_edges
        joined_members_concat find_joined_not_mirrored)
qed

lemma at_least_one_holder:
  "c \<in> set (concat xss) \<Longrightarrow> 1 \<le> length (filter (\<lambda>xs. c \<in> set xs) xss)"
  by (induction xss) auto

lemma exactly_one_holder:
  assumes "distinct (concat xss)" and "c \<in> set (concat xss)"
  shows "length (filter (\<lambda>xs. c \<in> set xs) xss) = 1"
  using assms
proof (induction xss)
  case Nil
  then show ?case by simp
next
  case (Cons xs xss)
  show ?case
  proof (cases "c \<in> set xs")
    case True
    with Cons.prems(1) have "c \<notin> set (concat xss)" by auto
    then have "filter (\<lambda>xs. c \<in> set xs) xss = []" by (auto simp: filter_empty_conv)
    with True show ?thesis by simp
  next
    case False
    with Cons.prems have "distinct (concat xss)" "c \<in> set (concat xss)" by auto
    from Cons.IH [OF this] False show ?thesis by simp
  qed
qed

text \<open>
  Claim C8, amended. After \<open>calcEdgeConnectivity\<close> has computed a connectivity, every
  edge of every patch is referenced by at least one edge record, as the first or second
  member of a joined record or alone in a free record; it is referenced by exactly one
  record when no face and edge takes part in more than one coincidence found by the edge
  matcher, that is, when the list of joined members built at lines 682 to 685 has no
  repetition.
\<close>

theorem edge_coverage:
  assumes run: "calcEdgeConnectivity_run G T self0 = Inr self"
    and p: "p < length (surfs self0)" and e: "e < 4"
  shows "1 \<le> ref_count (con_list self) p e
    \<and> (distinct (joined_members (find_joined T (length (surfs self0)))) \<longrightarrow>
         ref_count (con_list self) p e = 1)"
proof -
  let ?n = "length (surfs self0)"
  let ?el = "joined_members (find_joined T ?n)"
  let ?new = "filter (\<lambda>fe. fe \<notin> set ?el) (all_face_edges ?n)"
  from run obtain cn where d: "discover T ?n = Inr cn"
    and ix: "setEdgeConnectivity G (self0\<lparr>con := Some cn\<rparr>) = Inr self"
    by (auto simp: calcEdgeConnectivity_run_def split: sum.splits)
  from ix have c1: "con_list self = cn"
    by (auto simp: setEdgeConnectivity_def con_list_def split: sum.splits)
  from discover_records [OF d] obtain edges' where
    sk: "map skel edges' = map skel (found_edges T ?n)" and cn: "cn = map rec_of edges'" by blast
  let ?mss = "map raw_members (found_edges T ?n)"
  have cnt: "ref_count (con_list self) p e = length (filter (\<lambda>ms. (p, e) \<in> set ms) ?mss)"
    using map_raw_members_skel [OF sk] by (simp add: c1 cn ref_count_rec_of)
  have cc: "concat ?mss = ?el @ ?new" by (rule found_members)
  have "(p, e) \<in> set (all_face_edges ?n)"
    using p e by (auto simp: all_face_edges_def intro!: bexI [of _ p])
  then have mem: "(p, e) \<in> set (concat ?mss)" unfolding cc by auto
  have one: "1 \<le> ref_count (con_list self) p e"
    unfolding cnt by (rule at_least_one_holder [OF mem])
  have "ref_count (con_list self) p e = 1" if dist: "distinct ?el"
  proof -
    have "distinct (?el @ ?new)" using dist distinct_all_face_edges [of ?n] by auto
    then have "distinct (concat ?mss)" unfolding cc .
    from exactly_one_holder [OF this mem] show ?thesis unfolding cnt .
  qed
  with one show ?thesis by blast
qed

text \<open>
  Claim C8, as stated, fails where three patches meet along one edge: the matcher reports
  three pairwise coincidences, each becomes a joined record, and edge 1 of patch 0 (like
  edge 0 of patch 1) is named by two records. Discovery and indexing complete.
\<close>

theorem shared_by_three_referenced_twice:
  "map_sum id (count_refs 0 1)
     (calcEdgeConnectivity getGlobalIndexEdge three_at_one_edge [] three_patches) = Inr 2
   \<and> map_sum id (count_refs 1 0)
     (calcEdgeConnectivity getGlobalIndexEdge three_at_one_edge [] three_patches) = Inr 2"
  by code_simp

theorem edge_coverage_witness:
  "calcEdgeConnectivity_run getGlobalIndexEdge (shared_edge 1) two_squares = Inr two_squares_joined
   \<and> 1 < length (surfs two_squares) \<and> (0::nat) < 4
   \<and> distinct (joined_members (find_joined (shared_edge 1) (length (surfs two_squares))))
   \<and> 1 \<le> ref_count (con_list two_squares_joined) 1 0
   \<and> ref_count (con_list two_squares_joined) 1 0 = 1"
proof -
  have h1: "calcEdgeConnectivity_run getGlobalIndexEdge (shared_edge 1) two_squares
              = Inr two_squares_joined" by code_simp
  have h2: "1 < length (surfs two_squares)" by code_simp
  have h3: "(0::nat) < 4" by simp
  have h4: "distinct (joined_members (find_joined (shared_edge 1) (length (surfs two_squares))))"
    by code_simp
  show ?thesis
    using edge_coverage [OF h1 h2 h3] h1 h2 h4 by simp
qed

subsection \<open>Spacing of a refitted reference axis\<close>

text \<open>
  Claim C10. Whenever the requested number of sections differs from the number of anchor
  points, a spacing passed by the caller is replaced by \<open>linspace(0,1,nrefsecs)\<close> before
  anything is evaluated, in the least-squares branch and in the interpolating branch
  alike: two calls that differ only in the spacing passed give the same points and
  rotations, or fail alike.
\<close>

theorem caller_spacing_ignored:
  assumes "nrefsecs \<noteq> int (length X)"
  shows "override_spacing nrefsecs (Some spacing) = map_sum id Some (linspace01 nrefsecs)
    \<and> addRefAxis_sections L X rot (Some nrefsecs) (Some spacing)
        = addRefAxis_sections L X rot (Some nrefsecs) (Some spacing')"
  by (cases "linspace01 nrefsecs") (simp_all add: addRefAxis_sections_def override_spacing_def)

theorem caller_spacing_ignored_witness:
  "(3::int) \<noteq> int (length two_anchors)
   \<and> override_spacing 3 (Some [0, 1 / 10, 1]) = map_sum id Some (linspace01 3)
   \<and> addRefAxis_sections echo_spline two_anchors no_rotation (Some 3) (Some [0, 1 / 10, 1])
       = addRefAxis_sections echo_spline two_anchors no_rotation (Some 3) (Some [0, 9 / 10, 1])
   \<and> addRefAxis_sections echo_spline two_anchors no_rotation (Some 3) (Some [0, 1 / 10, 1])
       = Inr ([(0, 0, 0), (1 / 2, 1 / 2, 1 / 2), (1, 1, 1)], [(0, 0, 0), (1 / 2, 1 / 2, 1 / 2), (1, 1, 1)])"
proof -
  have h: "(3::int) \<noteq> int (length two_anchors)" by (simp add: two_anchors_def)
  have v: "addRefAxis_sections echo_spline two_anchors no_rotation (Some 3) (Some [0, 1 / 10, 1])
       = Inr ([(0, 0, 0), (1 / 2, 1 / 2, 1 / 2), (1, 1, 1)], [(0, 0, 0), (1 / 2, 1 / 2, 1 / 2), (1, 1, 1)])"
    by (simp add: addRefAxis_sections_def echo_spline_def two_anchors_def no_rotation_def
        override_spacing_def linspace01_def bindE_def new_rotations_def assign_column_def
        upt_conv_Cons)
  show ?thesis
    using caller_spacing_ignored [OF h, where L = echo_spline and rot = no_rotation
        and spacing = "[0, 1 / 10, 1]" and spacing' = "[0, 9 / 10, 1]"] h v
    by simp
qed

subsection \<open>The complex step restores the design variables\<close>

lemma bindE_Inr:
  "bindE m f = Inr y \<Longrightarrow> \<exists>x. m = Inr x \<and> f x = Inr y"
  by (cases m) (simp_all add: bindE_def)

lemma updateCoef_DVs:
  "updateCoef L self = Inr r \<Longrightarrow> DV_listGlobal (fst r) = DV_listGlobal self"
  unfolding updateCoef_def by (auto dest!: bindE_Inr)

lemma inplace_back:
  assumes "inplace n jj (\<lambda>z. z + h) v = Inr v1" and "inplace n jj (\<lambda>z. z - h) v1 = Inr v2"
  shows "v2 = v"
  using assms
  by (cases v) (auto simp: inplace_def comp_def list_update_same_conv split: if_splits)

lemma cs_step_restores:
  assumes "cs_step L idv n jj st = Inr st'"
  shows "DV_listGlobal (fst st') = DV_listGlobal (fst st)"
proof -
  from assms obtain s1 r J s2 where
    p: "set_dv_value idv n jj (\<lambda>z. z + h_step) (fst st) = Inr s1"
    and u: "updateCoef L s1 = Inr r"
    and b: "set_dv_value idv n jj (\<lambda>z. z - h_step) ((fst r)\<lparr>J1 := Some J\<rparr>) = Inr s2"
    and e: "st' = (s2, snd st + 1)"
    unfolding cs_step_def by (auto dest!: bindE_Inr)
  let ?D = "DV_listGlobal (fst st)"
  from p obtain v1 where
    lt: "idv < length ?D"
    and v1: "inplace n jj (\<lambda>z. z + h_step) (dv_value (?D ! idv)) = Inr v1"
    and s1: "DV_listGlobal s1 = ?D[idv := (?D ! idv)\<lparr>dv_value := v1\<rparr>]"
    unfolding set_dv_value_def by (auto dest!: bindE_Inr split: if_splits)
  have r: "DV_listGlobal (fst r) = ?D[idv := (?D ! idv)\<lparr>dv_value := v1\<rparr>]"
    using updateCoef_DVs [OF u] s1 by simp
  from b r lt obtain v2 where
    v2: "inplace n jj (\<lambda>z. z - h_step) v1 = Inr v2"
    and s2: "DV_listGlobal s2 = ?D[idv := (?D ! idv)\<lparr>dv_value := v2\<rparr>]"
    unfolding set_dv_value_def by (auto dest!: bindE_Inr split: if_splits)
  have "v2 = dv_value (?D ! idv)" by (rule inplace_back [OF v1 v2])
  with s2 e show ?thesis by (simp add: list_update_same_conv)
qed

lemma forE_preserves:
  assumes "\<And>x s s'. body x s = Inr s' \<Longrightarrow> P s \<Longrightarrow> P s'"
  shows "forE xs body s = Inr s' \<Longrightarrow> P s \<Longrightarrow> P s'"
proof (induction xs arbitrary: s)
  case Nil
  then show ?case by simp
next
  case (Cons x xs)
  from Cons.prems(1) obtain s1 where b: "body x s = Inr s1" and r: "forE xs body s1 = Inr s'"
    by (auto split: sum.splits)
  from assms [OF b Cons.prems(2)] Cons.IH [OF r] show ?case by simp
qed

lemma calcCtlDeriv_restores_all:
  assumes "calcCtlDeriv L self = Inr self'"
  shows "DV_listGlobal self' = DV_listGlobal self"
proof -
  from assms obtain s0 st where
    i: "init_J1 self = Inr s0"
    and l: "forE [0..<length (DV_listGlobal s0)]
              (\<lambda>idv st. if idv < length (DV_listGlobal (fst st))
                         then forE [0..<nVal (DV_listGlobal (fst st) ! idv)]
                                (cs_step L idv (nVal (DV_listGlobal (fst st) ! idv))) st
                         else Inl IndexError)
              (s0, 0) = Inr st"
    and e: "self' = fst st"
    unfolding calcCtlDeriv_def by (auto dest!: bindE_Inr)
  have s0: "DV_listGlobal s0 = DV_listGlobal self"
    using i unfolding init_J1_def by (auto dest!: bindE_Inr simp: Let_def split: if_splits)
  have inner: "forE js (cs_step L idv n) a = Inr b
      \<Longrightarrow> DV_listGlobal (fst a) = D \<Longrightarrow> DV_listGlobal (fst b) = D" for js idv n a b D
    by (rule forE_preserves [where P = "\<lambda>a. DV_listGlobal (fst a) = D" and body = "cs_step L idv n"])
       (auto dest: cs_step_restores)
  have "DV_listGlobal (fst st) = DV_listGlobal self"
    by (rule forE_preserves [OF _ l, where P = "\<lambda>a. DV_listGlobal (fst a) = DV_listGlobal self"])
       (auto split: if_splits dest: inner simp: s0)
  with e show ?thesis by simp
qed

text \<open>
  Claim C9. Every pass of the complex-step loop takes its perturbation back: after the
  pass for one component, and therefore before the next component is perturbed, every
  global design variable has the value it had before the pass; and when \<open>calcCtlDeriv\<close>
  returns, every global design variable has the value it had before the call.
\<close>

theorem calcCtlDeriv_restores_values:
  "(cs_step L idv n jj (self, col) = Inr (self1, col1)
      \<longrightarrow> map dv_value (DV_listGlobal self1) = map dv_value (DV_listGlobal self))
   \<and> (calcCtlDeriv L self = Inr self2
      \<longrightarrow> map dv_value (DV_listGlobal self2) = map dv_value (DV_listGlobal self))"
  using cs_step_restores [of L idv n jj "(self, col)" "(self1, col1)"]
    calcCtlDeriv_restores_all [of L self self2]
  by simp

theorem calcCtlDeriv_restores_values_witness:
  "(\<exists>s1. cs_step rigid_numerics 0 1 0 (scaled_geo\<lparr>J1 := Some (zeros2 3 1)\<rparr>, 0) = Inr (s1, 1)
       \<and> J1 s1 = Some ((3, 1), [[0], [1], [0]])
       \<and> map dv_value (DV_listGlobal s1) = [Number 2])
   \<and> (\<exists>s2. calcCtlDeriv rigid_numerics scaled_geo = Inr s2
       \<and> J1 s2 = Some ((3, 1), [[0], [1], [0]])
       \<and> map dv_value (DV_listGlobal s2) = [Number 2])"
proof -
  note defs = calcCtlDeriv_def init_J1_def not_J1_def zeros2_def cs_step_def set_dv_value_def
    inplace_def updateCoef_def update_axes_def scale_axes_def ref_axis_update_def move_attached_def
    axis_rot_def assign_column_def getcomplexcoef_def rigid_numerics_def scaled_geo_def
    straight_axis_def geoDVGlobal_init_def set_column_def flatten_def astype_D_def vadd_def
    vscale_def bindE_def h_step_def upt_conv_Cons numeral_3_eq_3
  have a: "\<exists>s1. cs_step rigid_numerics 0 1 0 (scaled_geo\<lparr>J1 := Some (zeros2 3 1)\<rparr>, 0) = Inr (s1, 1)
       \<and> J1 s1 = Some ((3, 1), [[0], [1], [0]])"
    by (simp add: defs)
  have b: "\<exists>s2. calcCtlDeriv rigid_numerics scaled_geo = Inr s2
       \<and> J1 s2 = Some ((3, 1), [[0], [1], [0]])"
    by (simp add: defs)
  have d: "map dv_value (DV_listGlobal scaled_geo) = [Number 2]"
    by (simp add: scaled_geo_def geoDVGlobal_init_def)
  from a obtain s1 where
    a1: "cs_step rigid_numerics 0 1 0 (scaled_geo\<lparr>J1 := Some (zeros2 3 1)\<rparr>, 0) = Inr (s1, 1)"
    and a2: "J1 s1 = Some ((3, 1), [[0], [1], [0]])" by blast
  from b obtain s2 where
    b1: "calcCtlDeriv rigid_numerics scaled_geo = Inr s2"
    and b2: "J1 s2 = Some ((3, 1), [[0], [1], [0]])" by blast
  from calcCtlDeriv_restores_values [where L = rigid_numerics and idv = 0 and n = 1 and jj = 0
      and self = "scaled_geo\<lparr>J1 := Some (zeros2 3 1)\<rparr>" and col = 0 and ?self1.0 = s1 and ?col1.0 = 1]
    a1 d
  have a3: "map dv_value (DV_listGlobal s1) = [Number 2]" by simp
  from calcCtlDeriv_restores_values [where L = rigid_numerics and self = scaled_geo and ?self2.0 = s2]
    b1 d
  have b3: "map dv_value (DV_listGlobal s2) = [Number 2]" by simp
  have A: "\<exists>s1. cs_step rigid_numerics 0 1 0 (scaled_geo\<lparr>J1 := Some (zeros2 3 1)\<rparr>, 0) = Inr (s1, 1)
       \<and> J1 s1 = Some ((3, 1), [[0], [1], [0]])
       \<and> map dv_value (DV_listGlobal s1) = [Number 2]"
    by (rule exI [of _ s1]) (simp only: a1 a2 a3 simp_thms)
  have B: "\<exists>s2. calcCtlDeriv rigid_numerics scaled_geo = Inr s2
       \<and> J1 s2 = Some ((3, 1), [[0], [1], [0]])
       \<and> map dv_value (DV_listGlobal s2) = [Number 2]"
    by (rule exI [of _ s2]) (simp only: b1 b2 b3 simp_thms)
  from A B show ?thesis by (rule conjI)
qed

end
